theory Spec2Isabelle
  imports
    Main
    "HOL-Library.Char_ord"
    "HOL-Library.List_Lexorder"
    "HOL-Library.Product_Lexorder"
    "HOL-Library.Multiset"
begin

section \<open>Python strings\<close>

text \<open>
  A Python \<open>str\<close> is modelled as a \<open>string\<close>; a \<open>char\<close> stands for a code point
  below 256, so texts with code points beyond that are outside the model. Strings compare
  as Python compares them: lexicographically by code point, a proper prefix being smaller
  (the orders of \<open>Char_ord\<close> and \<open>List_Lexorder\<close>).
\<close>

text \<open>The code points below 256 that \<open>str.isspace\<close> accepts; \<open>str.strip()\<close> removes them.\<close>

definition py_isspace :: "char \<Rightarrow> bool" where
  "py_isspace c =
     (let n = (of_char c :: nat)
      in (9 \<le> n \<and> n \<le> 13) \<or> (28 \<le> n \<and> n \<le> 32) \<or> n = 133 \<or> n = 160)"

text \<open>\<open>s.strip(chars)\<close>: drop the leading and the trailing characters that satisfy \<open>p\<close>.\<close>

definition strip_where :: "(char \<Rightarrow> bool) \<Rightarrow> string \<Rightarrow> string" where
  "strip_where p s = rev (dropWhile p (rev (dropWhile p s)))"

definition strip :: "string \<Rightarrow> string" where
  "strip s = strip_where py_isspace s"

definition strip_slash :: "string \<Rightarrow> string" where
  "strip_slash s = strip_where (\<lambda>c. c = CHR ''/'') s"

text \<open>\<open>str.lower()\<close> on code points below 256: A..Z and the Latin-1 capitals move by 32.\<close>

definition lower_char :: "char \<Rightarrow> char" where
  "lower_char c =
     (let n = (of_char c :: nat)
      in if (65 \<le> n \<and> n \<le> 90) \<or> (192 \<le> n \<and> n \<le> 222 \<and> n \<noteq> 215)
         then char_of (n + 32) else c)"

definition lower :: "string \<Rightarrow> string" where
  "lower s = map lower_char s"

text \<open>\<open>sep.join(parts)\<close>.\<close>

fun join :: "string \<Rightarrow> string list \<Rightarrow> string" where
  "join sep [] = []"
| "join sep [p] = p"
| "join sep (p # q # ps) = p @ sep @ join sep (q # ps)"

text \<open>
  \<open>s.split(c, n)\<close> for a one-character separator: at most \<open>n\<close> splits, from the left; the
  rest of the string, separators included, is the last part.
\<close>

fun split_max :: "char \<Rightarrow> nat \<Rightarrow> string \<Rightarrow> string list" where
  "split_max c 0 s = [s]"
| "split_max c (Suc n) s =
     (if c \<in> set s
      then takeWhile (\<lambda>x. x \<noteq> c) s # split_max c n (tl (dropWhile (\<lambda>x. x \<noteq> c) s))
      else [s])"

text \<open>\<open>str(n)\<close> and \<open>f"{n}"\<close> for an integer: decimal digits, a minus sign when negative.\<close>

fun str_nat :: "nat \<Rightarrow> string" where
  "str_nat n =
     (if n < 10 then [char_of (48 + n)]
      else str_nat (n div 10) @ [char_of (48 + n mod 10)])"

declare str_nat.simps [simp del]

definition str_int :: "int \<Rightarrow> string" where
  "str_int i = (if i < 0 then CHR ''-'' # str_nat (nat (- i)) else str_nat (nat i))"

text \<open>Python's \<open>x or ""\<close> on an optional string.\<close>

definition or_empty :: "string option \<Rightarrow> string" where
  "or_empty x = (case x of None \<Rightarrow> [] | Some s \<Rightarrow> s)"

section \<open>Data model\<close>

text \<open>
  Modelled from the spec: \<open>NewsItem\<close> and \<open>NewsData\<close> are declared in
  \<open>trendradar.storage.base\<close>, which is not among the sources. The fields are those the
  module reads and the spec lists: \<open>source_id\<close> and \<open>title\<close> are required, \<open>url\<close>,
  \<open>mobile_url\<close> and \<open>rank\<close> may be absent (\<open>None\<close>), \<open>source_name\<close> is a string that the
  flattener overwrites.
\<close>

record news_item =
  source_id :: string
  source_name :: string
  title :: string
  url :: "string option"
  mobile_url :: "string option"
  rank :: "int option"

text \<open>
  A snapshot. \<open>items\<close> is a Python dict, iterated in insertion order: an association list
  (a dict has no key twice). \<open>id_to_name\<close> is only looked up: a map.
\<close>

record news_data =
  items :: "(string \<times> news_item list) list"
  id_to_name :: "string \<rightharpoonup> string"

text \<open>
  \<open>AiHotspotLine\<close>. Its fields \<open>title\<close>, \<open>url\<close>, \<open>mobile_url\<close> and \<open>rank\<close> are named
  \<open>line_title\<close>, \<open>line_url\<close>, \<open>line_mobile_url\<close> and \<open>line_rank\<close> here: the names
  without the prefix are the fields of \<open>news_item\<close>.
\<close>

record ai_hotspot_line =
  idx :: int
  platform_id :: string
  platform_name :: string
  line_title :: string
  line_url :: string
  line_mobile_url :: string
  line_rank :: int

section \<open>Identity Resolver\<close>

text \<open>
  \<open>clean_title\<close> and \<open>normalize_url\<close> are imported from other modules; every function
  that calls them takes them as its first arguments \<open>ct\<close> and \<open>nu\<close>.
\<close>

definition item_identity ::
  "(string \<Rightarrow> string) \<Rightarrow> (string \<Rightarrow> string \<Rightarrow> string) \<Rightarrow> news_item \<Rightarrow> string" where
  "item_identity ct nu item =
     (let u = strip (or_empty (url item))
      in if u \<noteq> [] then ''url:'' @ nu u (source_id item)
         else ''title:'' @ lower (ct (title item)))"

section \<open>Flattener/Sorter\<close>

text \<open>Python's \<open>a.get(k) or b.get(k) or k\<close>: the first truthy (non-empty) value, else \<open>k\<close>.\<close>

definition truthy :: "string option \<Rightarrow> bool" where
  "truthy x = (case x of None \<Rightarrow> False | Some s \<Rightarrow> s \<noteq> [])"

definition resolve_source_name ::
  "(string \<rightharpoonup> string) \<Rightarrow> (string \<rightharpoonup> string) \<Rightarrow> string \<Rightarrow> string" where
  "resolve_source_name override own sid =
     (if truthy (override sid) then or_empty (override sid)
      else if truthy (own sid) then or_empty (own sid)
      else sid)"

text \<open>
  The sort key \<open>(x.rank or 999, x.source_id or "", clean_title(x.title))\<close>. Tuples compare
  lexicographically (\<open>Product_Lexorder\<close>).
\<close>

definition rank_or :: "int \<Rightarrow> int option \<Rightarrow> int" where
  "rank_or d r = (case r of None \<Rightarrow> d | Some n \<Rightarrow> if n = 0 then d else n)"

definition sort_key_of :: "(string \<Rightarrow> string) \<Rightarrow> news_item \<Rightarrow> int \<times> string \<times> string" where
  "sort_key_of ct x = (rank_or 999 (rank x), source_id x, ct (title x))"

text \<open>
  The inner loop appends each item of one source, its \<open>source_name\<close> overwritten; the outer
  loop runs over the dict's entries in insertion order. In this section and the next an
  item is a value, which is what the code computes when no item object is listed twice in
  the snapshot. The write \<open>it.source_name = ...\<close> goes to the caller's object; the section
  on snapshots of objects models it with a store, and \<open>build_st_value\<close> links the two.
\<close>

definition flatten_source :: "string \<Rightarrow> news_item list \<Rightarrow> news_item list \<Rightarrow> news_item list" where
  "flatten_source name acc news_list =
     foldl (\<lambda>acc it. acc @ [it\<lparr>source_name := name\<rparr>]) acc news_list"

definition flatten_collect ::
  "(string \<rightharpoonup> string) \<Rightarrow> news_data \<Rightarrow> news_item list" where
  "flatten_collect names data =
     foldl (\<lambda>acc (sid, news_list).
              flatten_source (resolve_source_name names (id_to_name data) sid) acc news_list)
       [] (items data)"

text \<open>\<open>list.sort(key=...)\<close> is a stable ascending sort, as \<open>sort_key\<close> is.\<close>

definition flatten_news ::
  "(string \<Rightarrow> string) \<Rightarrow> news_data \<Rightarrow> (string \<rightharpoonup> string) \<Rightarrow> news_item list" where
  "flatten_news ct data names = sort_key (sort_key_of ct) (flatten_collect names data)"

section \<open>Dedup Engine\<close>

text \<open>The set of identities of yesterday's items, built by one \<open>add\<close> per item.\<close>

definition yesterday_seen ::
  "(string \<Rightarrow> string) \<Rightarrow> (string \<Rightarrow> string \<Rightarrow> string) \<Rightarrow> news_data option \<Rightarrow> string set" where
  "yesterday_seen ct nu yesterday_data =
     (case yesterday_data of
        None \<Rightarrow> {}
      | Some y \<Rightarrow>
          foldl (\<lambda>seen it. insert (item_identity ct nu it) seen) {}
            (flatten_news ct y (id_to_name y)))"

text \<open>
  The walk over today's items. The state is the pair of \<open>unique_candidates\<close> and
  \<open>today_seen\<close>; the two \<open>continue\<close> branches leave it unchanged.
\<close>

definition dedup_step ::
  "(string \<Rightarrow> string) \<Rightarrow> (string \<Rightarrow> string \<Rightarrow> string) \<Rightarrow> string set \<Rightarrow>
   news_item list \<times> string set \<Rightarrow> news_item \<Rightarrow> news_item list \<times> string set" where
  "dedup_step ct nu yseen st it =
     (let identity = item_identity ct nu it
      in if identity \<in> yseen then st
         else if identity \<in> snd st then st
         else (fst st @ [it], insert identity (snd st)))"

definition unique_candidates ::
  "(string \<Rightarrow> string) \<Rightarrow> (string \<Rightarrow> string \<Rightarrow> string) \<Rightarrow>
   news_data \<Rightarrow> news_data option \<Rightarrow> news_item list" where
  "unique_candidates ct nu today_data yesterday_data =
     fst (foldl (dedup_step ct nu (yesterday_seen ct nu yesterday_data)) ([], {})
            (flatten_news ct today_data (id_to_name today_data)))"

text \<open>\<open>xs[:k]\<close> when \<open>k > 0\<close>, the whole list otherwise.\<close>

definition cap_items :: "int \<Rightarrow> 'a list \<Rightarrow> 'a list" where
  "cap_items max_items xs = (if max_items > 0 then take (nat max_items) xs else xs)"

definition make_line :: "(string \<Rightarrow> string) \<Rightarrow> int \<Rightarrow> news_item \<Rightarrow> ai_hotspot_line" where
  "make_line ct i it =
     \<lparr> idx = i,
       platform_id = source_id it,
       platform_name = (if source_name it \<noteq> [] then source_name it else source_id it),
       line_title = ct (title it),
       line_url = strip (or_empty (url it)),
       line_mobile_url = strip (or_empty (mobile_url it)),
       line_rank = rank_or 0 (rank it) \<rparr>"

text \<open>\<open>for idx, it in enumerate(unique_candidates, start=1)\<close>, from the counter \<open>i\<close> on.\<close>

fun make_lines :: "(string \<Rightarrow> string) \<Rightarrow> int \<Rightarrow> news_item list \<Rightarrow> ai_hotspot_line list" where
  "make_lines ct i [] = []"
| "make_lines ct i (it # rest) = make_line ct i it # make_lines ct (i + 1) rest"

definition build_daily_unique_hotspots ::
  "(string \<Rightarrow> string) \<Rightarrow> (string \<Rightarrow> string \<Rightarrow> string) \<Rightarrow>
   news_data \<Rightarrow> news_data option \<Rightarrow> int \<Rightarrow> ai_hotspot_line list \<times> int" where
  "build_daily_unique_hotspots ct nu today_data yesterday_data max_items =
     (let cands = unique_candidates ct nu today_data yesterday_data;
          total_candidates = int (length cands)
      in (make_lines ct 1 (cap_items max_items cands), total_candidates))"

section \<open>Flattener and Dedup Engine on snapshots of objects\<close>

text \<open>
  A \<open>NewsItem\<close> is a mutable object. A store maps an address to the object's fields, a
  snapshot lists addresses, and the flattener's write \<open>it.source_name = source_name\<close>
  updates the store, so that it shows through every occurrence of the object. The functions
  below are the ones above with the store passed along and returned; the sort runs after the
  loops, on the store they leave, and the lines are built from the store left by both
  flattenings.
\<close>

type_synonym store = "nat \<Rightarrow> news_item"

record ref_data =
  item_refs :: "(string \<times> nat list) list"
  ref_names :: "string \<rightharpoonup> string"

definition flatten_source_st ::
  "string \<Rightarrow> nat list \<times> store \<Rightarrow> nat list \<Rightarrow> nat list \<times> store" where
  "flatten_source_st name st news_list =
     foldl (\<lambda>(acc, h) a. (acc @ [a], h(a := (h a)\<lparr>source_name := name\<rparr>))) st news_list"

definition flatten_collect_st ::
  "(string \<rightharpoonup> string) \<Rightarrow> ref_data \<Rightarrow> store \<Rightarrow> nat list \<times> store" where
  "flatten_collect_st names data h =
     foldl (\<lambda>st (sid, news_list).
              flatten_source_st (resolve_source_name names (ref_names data) sid) st news_list)
       ([], h) (item_refs data)"

definition flatten_news_st ::
  "(string \<Rightarrow> string) \<Rightarrow> ref_data \<Rightarrow> (string \<rightharpoonup> string) \<Rightarrow> store \<Rightarrow> nat list \<times> store" where
  "flatten_news_st ct data names h =
     (let (acc, h') = flatten_collect_st names data h
      in (sort_key (\<lambda>a. sort_key_of ct (h' a)) acc, h'))"

definition yesterday_seen_st ::
  "(string \<Rightarrow> string) \<Rightarrow> (string \<Rightarrow> string \<Rightarrow> string) \<Rightarrow> ref_data option \<Rightarrow> store \<Rightarrow>
   string set \<times> store" where
  "yesterday_seen_st ct nu yesterday_data h =
     (case yesterday_data of
        None \<Rightarrow> ({}, h)
      | Some y \<Rightarrow>
          (let (ys, h') = flatten_news_st ct y (ref_names y) h
           in (foldl (\<lambda>seen a. insert (item_identity ct nu (h' a)) seen) {} ys, h')))"

definition dedup_step_st ::
  "(string \<Rightarrow> string) \<Rightarrow> (string \<Rightarrow> string \<Rightarrow> string) \<Rightarrow> store \<Rightarrow> string set \<Rightarrow>
   nat list \<times> string set \<Rightarrow> nat \<Rightarrow> nat list \<times> string set" where
  "dedup_step_st ct nu h yseen st a =
     (let identity = item_identity ct nu (h a)
      in if identity \<in> yseen then st
         else if identity \<in> snd st then st
         else (fst st @ [a], insert identity (snd st)))"

definition build_daily_unique_hotspots_st ::
  "(string \<Rightarrow> string) \<Rightarrow> (string \<Rightarrow> string \<Rightarrow> string) \<Rightarrow> store \<Rightarrow>
   ref_data \<Rightarrow> ref_data option \<Rightarrow> int \<Rightarrow> (ai_hotspot_line list \<times> int) \<times> store" where
  "build_daily_unique_hotspots_st ct nu h today_data yesterday_data max_items =
     (let (today_items, h1) = flatten_news_st ct today_data (ref_names today_data) h;
          (yseen, h2) = yesterday_seen_st ct nu yesterday_data h1;
          cands = fst (foldl (dedup_step_st ct nu h2 yseen) ([], {}) today_items);
          total_candidates = int (length cands)
      in ((make_lines ct 1 (map h2 (cap_items max_items cands)), total_candidates), h2))"

text \<open>
  The snapshot of values that a snapshot of addresses stands for in a store, the addresses
  it lists, and the snapshots that list no address twice.
\<close>

definition deref :: "store \<Rightarrow> ref_data \<Rightarrow> news_data" where
  "deref h data =
     \<lparr> items = map (\<lambda>(sid, news_list). (sid, map h news_list)) (item_refs data),
       id_to_name = ref_names data \<rparr>"

definition refs_of :: "ref_data \<Rightarrow> nat list" where
  "refs_of data = concat (map snd (item_refs data))"

definition unshared :: "ref_data \<Rightarrow> bool" where
  "unshared data = distinct (refs_of data)"

section \<open>Text Renderer\<close>

text \<open>
  One body line: the head, then the bracket segments that the three \<open>if\<close>s append in turn.
  \<open>if it.url\<close> tests a string for being non-empty, \<open>if it.rank\<close> an integer for being
  non-zero.
\<close>

definition render_line :: "ai_hotspot_line \<Rightarrow> string" where
  "render_line it =
     (let line0 = str_int (idx it) @ ''. [platform='' @ platform_name it @
                  ''] [platform_id='' @ platform_id it @ ''] '' @ line_title it;
          line1 = (if line_url it \<noteq> [] then line0 @ '' [URL:'' @ line_url it @ '']'' else line0);
          line2 = (if line_mobile_url it \<noteq> []
                   then line1 @ '' [MOBILE:'' @ line_mobile_url it @ '']'' else line1);
          line3 = (if line_rank it \<noteq> 0
                   then line2 @ '' [RANK:'' @ str_int (line_rank it) @ '']'' else line2)
      in line3)"

text \<open>
  The header. Its first line and its instruction line are fixed texts outside ASCII; they
  are the parameters \<open>title_line\<close> and \<open>note_line\<close>. \<open>strftime\<close> stands for
  \<open>generated_at.strftime('%Y-%m-%d %H:%M:%S')\<close>.
\<close>

definition render_header ::
  "string \<Rightarrow> string \<Rightarrow> ('dt \<Rightarrow> string) \<Rightarrow> ai_hotspot_line list \<Rightarrow> string \<Rightarrow> 'dt \<Rightarrow>
   string option \<Rightarrow> int \<Rightarrow> string list" where
  "render_header title_line note_line strftime lines date_str generated_at
       dedupe_against_date total_candidates =
     [title_line, ''- date: '' @ date_str, ''- generated_at: '' @ strftime generated_at]
     @ (if truthy dedupe_against_date
        then [''- dedupe_against: '' @ or_empty dedupe_against_date] else [])
     @ [''- candidates_after_dedupe: '' @ str_int total_candidates,
        ''- exported_count: '' @ str_int (int (length lines)),
        [], note_line, []]"

definition render_ai_hotspots_text ::
  "string \<Rightarrow> string \<Rightarrow> ('dt \<Rightarrow> string) \<Rightarrow> ai_hotspot_line list \<Rightarrow> string \<Rightarrow> 'dt \<Rightarrow>
   string option \<Rightarrow> int \<Rightarrow> string" where
  "render_ai_hotspots_text title_line note_line strftime lines date_str generated_at
       dedupe_against_date total_candidates =
     join [CHR 0x0A]
       (render_header title_line note_line strftime lines date_str generated_at
          dedupe_against_date total_candidates
        @ map render_line lines)
     @ [CHR 0x0A]"

section \<open>Path/Key Builder\<close>

datatype error = ValueError | OSError

text \<open>
  \<open>y, m, d = date_str.split("-", 2)\<close>: the unpacking raises \<open>ValueError\<close> unless the list
  has exactly three elements.
\<close>

definition unpack3 :: "string list \<Rightarrow> error + string \<times> string \<times> string" where
  "unpack3 ps = (case ps of [y, m, d] \<Rightarrow> Inr (y, m, d) | _ \<Rightarrow> Inl ValueError)"

definition split_date :: "string \<Rightarrow> error + string \<times> string \<times> string" where
  "split_date date_str = unpack3 (split_max CHR ''-'' 2 date_str)"

definition build_r2_key :: "string \<Rightarrow> string \<Rightarrow> string \<Rightarrow> error + string" where
  "build_r2_key prefix date_str filename =
     (let prefix' = strip_slash (strip prefix)
      in case split_date date_str of
           Inl e \<Rightarrow> Inl e
         | Inr (y, m, d) \<Rightarrow>
             Inr (join ''/'' (filter (\<lambda>p. p \<noteq> []) [prefix', y, m, d, filename])))"

text \<open>
  \<open>pathlib\<close> on a POSIX system. A path is its root (\<open>/\<close>, \<open>//\<close> or none) and its parts;
  parsing drops empty parts and \<open>.\<close>; joining an absolute segment replaces the path;
  the empty path prints as \<open>.\<close>.
\<close>

definition split_all :: "char \<Rightarrow> string \<Rightarrow> string list" where
  "split_all c s = split_max c (length s) s"

record pure_path =
  root :: string
  parts :: "string list"

definition path_parse :: "string \<Rightarrow> pure_path" where
  "path_parse s =
     \<lparr> root = (if take 2 s = ''//'' \<and> take 3 s \<noteq> ''///'' then ''//''
               else if take 1 s = ''/'' then ''/'' else []),
       parts = filter (\<lambda>p. p \<noteq> [] \<and> p \<noteq> ''.'') (split_all CHR ''/'' s) \<rparr>"

definition path_div :: "pure_path \<Rightarrow> string \<Rightarrow> pure_path" where
  "path_div p s =
     (if take 1 s = ''/'' then path_parse s
      else p\<lparr>parts := parts p @ parts (path_parse s)\<rparr>)"

definition path_str :: "pure_path \<Rightarrow> string" where
  "path_str p =
     (if root p = [] \<and> parts p = [] then ''.'' else root p @ join ''/'' (parts p))"

text \<open>
  The file system is the caller's: \<open>mkdirs\<close> stands for
  \<open>mkdir(parents=True, exist_ok=True)\<close> and \<open>write_text\<close> for \<open>Path.write_text\<close>; each
  returns the new file system or the error it raises. The result is the path written and
  the file system after it.
\<close>

definition write_ai_hotspots_file ::
  "('fs \<Rightarrow> pure_path \<Rightarrow> error + 'fs) \<Rightarrow> ('fs \<Rightarrow> pure_path \<Rightarrow> string \<Rightarrow> error + 'fs) \<Rightarrow>
   'fs \<Rightarrow> string \<Rightarrow> string \<Rightarrow> string \<Rightarrow> string \<Rightarrow> error + string \<times> 'fs" where
  "write_ai_hotspots_file mkdirs write_text fs local_base_dir date_str filename content =
     (case split_date date_str of
        Inl e \<Rightarrow> Inl e
      | Inr (y, m, d) \<Rightarrow>
          (let out_dir = path_div (path_div (path_div (path_parse local_base_dir) y) m) d
           in case mkdirs fs out_dir of
                Inl e \<Rightarrow> Inl e
              | Inr fs1 \<Rightarrow>
                  (let out_path = path_div out_dir filename
                   in case write_text fs1 out_path content of
                        Inl e \<Rightarrow> Inl e
                      | Inr fs2 \<Rightarrow> Inr (path_str out_path, fs2))))"

section \<open>Auxiliary definitions\<close>

text \<open>The items of one dict entry as the inner loop appends them.\<close>

definition named_items ::
  "(string \<rightharpoonup> string) \<Rightarrow> news_data \<Rightarrow> string \<times> news_item list \<Rightarrow> news_item list" where
  "named_items names data e =
     map (\<lambda>it. it\<lparr>source_name := resolve_source_name names (id_to_name data) (fst e)\<rparr>) (snd e)"

text \<open>The dedup walk as a recursion on the remaining items, for the proofs.\<close>

fun walk :: "('a \<Rightarrow> 'b) \<Rightarrow> 'b set \<Rightarrow> 'b set \<Rightarrow> 'a list \<Rightarrow> 'a list" where
  "walk f ys seen [] = []"
| "walk f ys seen (x # xs) =
     (if f x \<in> ys \<or> f x \<in> seen then walk f ys seen xs
      else x # walk f ys (insert (f x) seen) xs)"

text \<open>An item has a rank when the field is neither absent nor 0 (\<open>x.rank or 999\<close>).\<close>

definition has_rank :: "news_item \<Rightarrow> bool" where
  "has_rank x = (case rank x of None \<Rightarrow> False | Some n \<Rightarrow> n \<noteq> 0)"

text \<open>A snapshot with the items' \<open>source_name\<close>, the field the flattener overwrites, blanked.\<close>

definition erase_names :: "news_data \<Rightarrow> news_data" where
  "erase_names data =
     data\<lparr>items := map (\<lambda>(sid, news_list). (sid, map (\<lambda>it. it\<lparr>source_name := []\<rparr>) news_list))
                      (items data)\<rparr>"

definition erase1 :: "news_item \<Rightarrow> news_item" where
  "erase1 x = x\<lparr>source_name := []\<rparr>"

text \<open>
  Snapshots as Python compares them: \<open>items\<close> is a dict (no key twice), and two snapshots
  have the same contents when their name mappings are equal and their dicts map the same
  keys to the same item lists, whatever the insertion order; the items' \<open>source_name\<close> is
  left out of the comparison. In \<open>own_ids\<close> every item is listed under its own \<open>source_id\<close>.
\<close>

definition is_dict :: "news_data \<Rightarrow> bool" where
  "is_dict d = distinct (map fst (items d))"

definition own_ids :: "news_data \<Rightarrow> bool" where
  "own_ids d = (\<forall>e \<in> set (items d). \<forall>it \<in> set (snd e). source_id it = fst e)"

definition same_contents :: "news_data \<Rightarrow> news_data \<Rightarrow> bool" where
  "same_contents d d' =
     (is_dict d \<and> is_dict d' \<and> id_to_name d = id_to_name d'
      \<and> map_of (items (erase_names d)) = map_of (items (erase_names d')))"

definition same_contents_opt :: "news_data option \<Rightarrow> news_data option \<Rightarrow> bool" where
  "same_contents_opt y y' =
     (case (y, y') of
        (None, None) \<Rightarrow> True
      | (Some d, Some d') \<Rightarrow> same_contents d d'
      | _ \<Rightarrow> False)"

text \<open>One step of the outer loop, and the identities of yesterday's objects.\<close>

definition collect_step ::
  "(string \<rightharpoonup> string) \<Rightarrow> (string \<rightharpoonup> string) \<Rightarrow> nat list \<times> store \<Rightarrow> string \<times> nat list \<Rightarrow>
   nat list \<times> store" where
  "collect_step names own st e =
     flatten_source_st (resolve_source_name names own (fst e)) st (snd e)"

definition seen_ids ::
  "(string \<Rightarrow> string) \<Rightarrow> (string \<Rightarrow> string \<Rightarrow> string) \<Rightarrow> store \<Rightarrow> ref_data option \<Rightarrow> string set" where
  "seen_ids ct nu h y =
     (case y of None \<Rightarrow> {} | Some d \<Rightarrow> (\<lambda>a. item_identity ct nu (h a)) ` set (refs_of d))"

text \<open>
  A key has no empty segment when it neither starts nor ends with a slash and has no two
  slashes in a row.
\<close>

definition no_empty_segment :: "string \<Rightarrow> bool" where
  "no_empty_segment k =
     ((k = [] \<or> (hd k \<noteq> CHR ''/'' \<and> last k \<noteq> CHR ''/''))
      \<and> successively (\<lambda>a b. \<not> (a = CHR ''/'' \<and> b = CHR ''/'')) k)"

text \<open>A well-formed date \<open>YYYY-MM-DD\<close> has four, two and two decimal digits.\<close>

definition digits :: "string \<Rightarrow> bool" where
  "digits s = list_all (\<lambda>c. c \<in> set ''0123456789'') s"

definition iso_date :: "string \<Rightarrow> string \<Rightarrow> string \<Rightarrow> bool" where
  "iso_date y m d =
     (length y = 4 \<and> length m = 2 \<and> length d = 2 \<and> digits y \<and> digits m \<and> digits d)"

text \<open>A plain file name: not empty, not \<open>.\<close>, no slash.\<close>

definition plain_name :: "string \<Rightarrow> bool" where
  "plain_name f = (f \<noteq> [] \<and> f \<noteq> ''.'' \<and> CHR ''/'' \<notin> set f)"

text \<open>A base directory in normal form: it has a part, and \<open>pathlib\<close> prints it unchanged.\<close>

definition normal_base :: "string \<Rightarrow> bool" where
  "normal_base b = (parts (path_parse b) \<noteq> [] \<and> path_str (path_parse b) = b)"

subsection \<open>Example data\<close>

text \<open>
  In the examples the title cleaner is \<open>strip\<close> and the URL normaliser returns the URL
  unchanged.
\<close>

definition empty_item :: news_item where
  "empty_item = \<lparr> source_id = ''weibo'', source_name = [], title = [], url = Some [],
                  mobile_url = None, rank = None \<rparr>"

definition w1 :: news_item where
  "w1 = \<lparr> source_id = ''weibo'', source_name = [], title = ''Alpha'',
          url = Some ''http://x.com/a'', mobile_url = None, rank = Some 1 \<rparr>"

definition w2 :: news_item where
  "w2 = \<lparr> source_id = ''weibo'', source_name = [], title = ''Beta'',
          url = None, mobile_url = Some ''http://m.x.com/b'', rank = Some 2 \<rparr>"

definition w3 :: news_item where
  "w3 = \<lparr> source_id = ''weibo'', source_name = [], title = ''beta'',
          url = None, mobile_url = None, rank = None \<rparr>"

definition z1 :: news_item where
  "z1 = \<lparr> source_id = ''zhihu'', source_name = [], title = ''Gamma'',
          url = Some '' http://x.com/a '', mobile_url = None, rank = Some 1 \<rparr>"

definition z2 :: news_item where
  "z2 = \<lparr> source_id = ''zhihu'', source_name = [], title = ''Delta'',
          url = Some ''http://x.com/d'', mobile_url = None, rank = Some 1000 \<rparr>"

definition y1 :: news_item where
  "y1 = \<lparr> source_id = ''weibo'', source_name = [], title = ''Old'',
          url = Some ''http://x.com/d'', mobile_url = None, rank = Some 3 \<rparr>"

definition ex_today :: news_data where
  "ex_today = \<lparr> items = [(''weibo'', [w1, w2, w3]), (''zhihu'', [z1, z2])],
                id_to_name = [''weibo'' \<mapsto> ''Weibo''] \<rparr>"

definition ex_yesterday :: news_data where
  "ex_yesterday = \<lparr> items = [(''weibo'', [y1])], id_to_name = Map.empty \<rparr>"

definition anon_item :: news_item where
  "anon_item = \<lparr> source_id = [], source_name = [], title = ''Alpha'',
                 url = None, mobile_url = None, rank = Some 1 \<rparr>"

definition ex_anon :: news_data where
  "ex_anon = \<lparr> items = [([], [anon_item])], id_to_name = Map.empty \<rparr>"

text \<open>
  The example snapshots as objects in a store, and a second store that holds equal items
  at other addresses, with a stale \<open>source_name\<close>, listed in another insertion order.
\<close>

definition ex_store :: store where
  "ex_store a =
     (if a = 0 then w1 else if a = 1 then w2 else if a = 2 then w3
      else if a = 3 then z1 else if a = 4 then z2 else y1)"

definition ex_refs_today :: ref_data where
  "ex_refs_today = \<lparr> item_refs = [(''weibo'', [0, 1, 2]), (''zhihu'', [3, 4])],
                     ref_names = [''weibo'' \<mapsto> ''Weibo''] \<rparr>"

definition ex_refs_yesterday :: ref_data where
  "ex_refs_yesterday = \<lparr> item_refs = [(''weibo'', [5])], ref_names = Map.empty \<rparr>"

definition ex_store2 :: store where
  "ex_store2 a = (ex_store (a - 10))\<lparr>source_name := ''stale''\<rparr>"

definition ex_refs_today2 :: ref_data where
  "ex_refs_today2 = \<lparr> item_refs = [(''zhihu'', [13, 14]), (''weibo'', [10, 11, 12])],
                      ref_names = [''weibo'' \<mapsto> ''Weibo''] \<rparr>"

definition ex_refs_yesterday2 :: ref_data where
  "ex_refs_yesterday2 = \<lparr> item_refs = [(''weibo'', [15])], ref_names = Map.empty \<rparr>"

text \<open>One object listed under two keys, and two equal objects listed under one key each.\<close>

definition shared_item :: news_item where
  "shared_item = \<lparr> source_id = ''a'', source_name = [], title = ''Alpha'',
                   url = Some ''http://x.com/a'', mobile_url = None, rank = Some 1 \<rparr>"

definition shared_store :: store where
  "shared_store a = shared_item"

definition refs_aliased :: ref_data where
  "refs_aliased = \<lparr> item_refs = [(''a'', [0]), (''b'', [0])],
                    ref_names = [''a'' \<mapsto> ''NameA'', ''b'' \<mapsto> ''NameB''] \<rparr>"

definition refs_separate :: ref_data where
  "refs_separate = \<lparr> item_refs = [(''a'', [0]), (''b'', [1])],
                     ref_names = [''a'' \<mapsto> ''NameA'', ''b'' \<mapsto> ''NameB''] \<rparr>"

text \<open>Two items whose \<open>source_id\<close> is not the key they are listed under.\<close>

definition order_store :: store where
  "order_store a =
     \<lparr> source_id = ''x'', source_name = [], title = ''Alpha'',
       url = Some (if a = 0 then ''http://x.com/1'' else ''http://x.com/2''),
       mobile_url = None, rank = Some 1 \<rparr>"

definition refs_ab :: ref_data where
  "refs_ab = \<lparr> item_refs = [(''a'', [0]), (''b'', [1])], ref_names = Map.empty \<rparr>"

definition refs_ba :: ref_data where
  "refs_ba = \<lparr> item_refs = [(''b'', [1]), (''a'', [0])], ref_names = Map.empty \<rparr>"

definition ex_line :: ai_hotspot_line where
  "ex_line = \<lparr> idx = 1, platform_id = ''weibo'', platform_name = ''Weibo'',
               line_title = ''Alpha'', line_url = ''http://x.com/a'', line_mobile_url = [],
               line_rank = 3 \<rparr>"

text \<open>A file system that records the paths it is given and never fails.\<close>

definition ex_mkdirs :: "pure_path list \<Rightarrow> pure_path \<Rightarrow> error + pure_path list" where
  "ex_mkdirs f p = Inr (p # f)"

definition ex_write_text :: "pure_path list \<Rightarrow> pure_path \<Rightarrow> string \<Rightarrow> error + pure_path list" where
  "ex_write_text f p c = Inr (p # f)"

text \<open>A file system that accepts relative paths only.\<close>

definition guarded_mkdirs :: "pure_path list \<Rightarrow> pure_path \<Rightarrow> error + pure_path list" where
  "guarded_mkdirs f p = (if root p = [] then Inr (p # f) else Inl OSError)"

definition guarded_write_text ::
  "pure_path list \<Rightarrow> pure_path \<Rightarrow> string \<Rightarrow> error + pure_path list" where
  "guarded_write_text f p c = (if root p = [] then Inr (p # f) else Inl OSError)"

section \<open>Lemmas\<close>

lemma strip_Nil: "strip [] = []"
  by (simp add: strip_def strip_where_def)

lemma lower_Nil: "lower [] = []"
  by (simp add: lower_def)

lemma length_make_lines: "length (make_lines ct i xs) = length xs"
  by (induction xs arbitrary: i) simp_all

lemma idx_make_lines:
  "map idx (make_lines ct i xs) = map (\<lambda>k. i + int k) [0..<length xs]"
proof (induction xs arbitrary: i)
  case Nil
  then show ?case by simp
next
  case (Cons x xs)
  have up: "[0..<length (x # xs)] = 0 # map Suc [0..<length xs]"
    by (simp add: upt_conv_Cons map_Suc_upt del: upt_Suc)
  show ?case
    unfolding up by (simp add: Cons.IH make_line_def comp_def add.assoc)
qed

lemma upto_from_one: "map (\<lambda>k. 1 + int k) [0..<n] = [1..int n]"
proof (induction n)
  case 0
  then show ?case by simp
next
  case (Suc n)
  have "[1..int (Suc n)] = [1..int n] @ [int n + 1]"
    by (simp add: upto_rec2)
  then show ?case using Suc by simp
qed

lemma make_lines_take:
  "make_lines ct i (take k xs) = take k (make_lines ct i xs)"
proof (induction xs arbitrary: i k)
  case Nil
  then show ?case by simp
next
  case (Cons x xs)
  then show ?case by (cases k) simp_all
qed

lemma flatten_source_eq:
  "flatten_source name acc news_list = acc @ map (\<lambda>it. it\<lparr>source_name := name\<rparr>) news_list"
  unfolding flatten_source_def
  by (induction news_list arbitrary: acc) simp_all


lemma flatten_collect_foldl:
  "foldl (\<lambda>acc (sid, news_list).
              flatten_source (resolve_source_name names own sid) acc news_list) acc es
   = acc @ concat (map (\<lambda>e. map (\<lambda>it. it\<lparr>source_name := resolve_source_name names own (fst e)\<rparr>) (snd e)) es)"
  by (induction es arbitrary: acc) (simp_all add: flatten_source_eq split_beta)

lemma flatten_collect_eq:
  "flatten_collect names data = concat (map (named_items names data) (items data))"
  unfolding flatten_collect_def named_items_def
  by (simp add: flatten_collect_foldl)

lemma sorted_flatten_news:
  "sorted (map (sort_key_of ct) (flatten_news ct data names))"
  unfolding flatten_news_def by simp

lemma set_flatten_news:
  "set (flatten_news ct data names) = set (flatten_collect names data)"
  unfolding flatten_news_def by simp

lemma yesterday_seen_foldl:
  "foldl (\<lambda>seen it. insert (f it) seen) s xs = s \<union> f ` set xs"
  by (induction xs arbitrary: s) auto

lemma yesterday_seen_eq:
  "yesterday_seen ct nu yd =
     (case yd of None \<Rightarrow> {}
      | Some y \<Rightarrow> item_identity ct nu ` set (flatten_collect (id_to_name y) y))"
  unfolding yesterday_seen_def
  by (simp add: yesterday_seen_foldl set_flatten_news split: option.splits)


lemma foldl_dedup_step:
  "foldl (dedup_step ct nu ys) (acc, seen) xs
   = (acc @ walk (item_identity ct nu) ys seen xs,
      seen \<union> item_identity ct nu ` set (walk (item_identity ct nu) ys seen xs))"
  by (induction xs arbitrary: acc seen) (auto simp: dedup_step_def Let_def)

lemma walk_positions:
  "walk f ys seen xs =
     map (\<lambda>i. xs ! i)
       (filter (\<lambda>i. f (xs ! i) \<notin> ys \<and> f (xs ! i) \<notin> seen \<and> f (xs ! i) \<notin> f ` set (take i xs))
          [0..<length xs])"
proof (induction xs arbitrary: seen)
  case Nil
  then show ?case by simp
next
  case (Cons x xs)
  have up: "[0..<length (x # xs)] = 0 # map Suc [0..<length xs]"
    by (simp add: upt_conv_Cons map_Suc_upt del: upt_Suc)
  show ?case
  proof (cases "f x \<in> ys \<or> f x \<in> seen")
    case True
    have "walk f ys seen (x # xs) = walk f ys seen xs" using True by simp
    also have "\<dots> = map (\<lambda>i. xs ! i)
       (filter (\<lambda>i. f (xs ! i) \<notin> ys \<and> f (xs ! i) \<notin> seen \<and> f (xs ! i) \<notin> f ` set (take i xs))
          [0..<length xs])" by (rule Cons.IH)
    also have "\<dots> = map (\<lambda>i. (x # xs) ! i)
       (filter (\<lambda>i. f ((x # xs) ! i) \<notin> ys \<and> f ((x # xs) ! i) \<notin> seen
                    \<and> f ((x # xs) ! i) \<notin> f ` set (take i (x # xs)))
          [0..<length (x # xs)])"
    proof -
      have P: "\<And>i. (f (xs ! i) \<notin> ys \<and> f (xs ! i) \<notin> seen \<and>
                  f (xs ! i) \<noteq> f x \<and> f (xs ! i) \<notin> f ` set (take i xs))
               = (f (xs ! i) \<notin> ys \<and> f (xs ! i) \<notin> seen \<and> f (xs ! i) \<notin> f ` set (take i xs))"
        using True by auto
      show ?thesis
        unfolding up using True by (simp add: filter_map comp_def P)
    qed
    finally show ?thesis .
  next
    case False
    have "walk f ys seen (x # xs) = x # walk f ys (insert (f x) seen) xs" using False by simp
    also have "walk f ys (insert (f x) seen) xs = map (\<lambda>i. xs ! i)
       (filter (\<lambda>i. f (xs ! i) \<notin> ys \<and> f (xs ! i) \<notin> insert (f x) seen
                    \<and> f (xs ! i) \<notin> f ` set (take i xs))
          [0..<length xs])" by (rule Cons.IH)
    finally have step: "walk f ys seen (x # xs) = x # map (\<lambda>i. xs ! i)
       (filter (\<lambda>i. f (xs ! i) \<notin> ys \<and> f (xs ! i) \<notin> insert (f x) seen
                    \<and> f (xs ! i) \<notin> f ` set (take i xs))
          [0..<length xs])" .
    have Q: "\<And>i. (f (xs ! i) \<notin> ys \<and> f (xs ! i) \<notin> seen \<and>
                  f (xs ! i) \<noteq> f x \<and> f (xs ! i) \<notin> f ` set (take i xs))
               = (f (xs ! i) \<notin> ys \<and> f (xs ! i) \<notin> insert (f x) seen
                    \<and> f (xs ! i) \<notin> f ` set (take i xs))"
      by auto
    show ?thesis
      unfolding up step using False by (simp add: filter_map comp_def Q)
  qed
qed

lemma flatten_collect_erase:
  "flatten_collect names (erase_names data) = flatten_collect names data"
  by (simp add: flatten_collect_eq erase_names_def named_items_def [abs_def] comp_def
        split_beta)

lemma id_to_name_erase: "id_to_name (erase_names data) = id_to_name data"
  by (simp add: erase_names_def)

lemma flatten_news_erase:
  "flatten_news ct data (id_to_name data)
   = flatten_news ct (erase_names data) (id_to_name (erase_names data))"
  by (simp add: flatten_news_def flatten_collect_erase id_to_name_erase)

lemma flatten_source_st_fst:
  "fst (flatten_source_st name (acc, h) rs) = acc @ rs"
  unfolding flatten_source_st_def
  by (induction rs arbitrary: acc h) simp_all

lemma flatten_source_st_frame:
  "a \<notin> set rs \<Longrightarrow> snd (flatten_source_st name (acc, h) rs) a = h a"
  unfolding flatten_source_st_def
  by (induction rs arbitrary: acc h) simp_all

lemma flatten_source_st_erase:
  "erase1 (snd (flatten_source_st name (acc, h) rs) a) = erase1 (h a)"
  unfolding flatten_source_st_def
  by (induction rs arbitrary: acc h) (simp_all add: erase1_def)

lemma flatten_source_st_written:
  "a \<in> set rs \<Longrightarrow> snd (flatten_source_st name (acc, h) rs) a = (h a)\<lparr>source_name := name\<rparr>"
proof (induction rs arbitrary: acc h)
  case Nil
  then show ?case by simp
next
  case (Cons r rs)
  let ?h = "h(r := (h r)\<lparr>source_name := name\<rparr>)"
  have step: "flatten_source_st name (acc, h) (r # rs) = flatten_source_st name (acc @ [r], ?h) rs"
    by (simp add: flatten_source_st_def)
  show ?case
  proof (cases "a \<in> set rs")
    case True
    have ih: "snd (flatten_source_st name (acc @ [r], ?h) rs) a = (?h a)\<lparr>source_name := name\<rparr>"
      by (rule Cons.IH [OF True])
    have e: "(?h a)\<lparr>source_name := name\<rparr> = (h a)\<lparr>source_name := name\<rparr>"
      by simp
    show ?thesis unfolding step by (rule trans [OF ih e])
  next
    case False
    with Cons.prems have "a = r" by simp
    with False show ?thesis unfolding step by (simp add: flatten_source_st_frame)
  qed
qed

lemma flatten_collect_st_step:
  "flatten_collect_st names data h
   = foldl (collect_step names (ref_names data)) ([], h) (item_refs data)"
  unfolding flatten_collect_st_def collect_step_def [abs_def]
  by (simp add: case_prod_unfold)

lemma collect_step_apply:
  "collect_step names own (acc, h) e
   = flatten_source_st (resolve_source_name names own (fst e)) (acc, h) (snd e)"
  by (simp add: collect_step_def)

lemma collect_fst:
  "fst (foldl (collect_step names own) st es) = fst st @ concat (map snd es)"
proof (induction es arbitrary: st)
  case Nil
  then show ?case by simp
next
  case (Cons e es)
  obtain acc h where st: "st = (acc, h)" by (cases st)
  show ?case
    by (simp add: Cons.IH collect_step_apply st flatten_source_st_fst)
qed

lemma collect_erase:
  "erase1 (snd (foldl (collect_step names own) st es) a) = erase1 (snd st a)"
proof (induction es arbitrary: st)
  case Nil
  then show ?case by simp
next
  case (Cons e es)
  obtain acc h where st: "st = (acc, h)" by (cases st)
  show ?case
    by (simp add: Cons.IH collect_step_apply st flatten_source_st_erase)
qed

lemma collect_frame:
  "a \<notin> set (concat (map snd es)) \<Longrightarrow> snd (foldl (collect_step names own) st es) a = snd st a"
proof (induction es arbitrary: st)
  case Nil
  then show ?case by simp
next
  case (Cons e es)
  obtain acc h where st: "st = (acc, h)" by (cases st)
  from Cons.prems have a1: "a \<notin> set (snd e)" and a2: "a \<notin> set (concat (map snd es))"
    by simp_all
  show ?case
    by (simp add: Cons.IH [OF a2] collect_step_apply st flatten_source_st_frame [OF a1])
qed

lemma collect_values:
  "distinct (concat (map snd es)) \<Longrightarrow>
   map (snd (foldl (collect_step names own) st es)) (concat (map snd es))
   = concat (map (\<lambda>e. map (\<lambda>a. (snd st a)\<lparr>source_name := resolve_source_name names own (fst e)\<rparr>)
                          (snd e)) es)"
proof (induction es arbitrary: st)
  case Nil
  then show ?case by simp
next
  case (Cons e es)
  obtain acc h where st: "st = (acc, h)" by (cases st)
  let ?name = "resolve_source_name names own (fst e)"
  let ?st1 = "flatten_source_st ?name (acc, h) (snd e)"
  let ?H = "snd (foldl (collect_step names own) ?st1 es)"
  from Cons.prems have d1: "distinct (concat (map snd es))"
    and dj: "set (snd e) \<inter> set (concat (map snd es)) = {}"
    by simp_all
  have step: "foldl (collect_step names own) st (e # es) = foldl (collect_step names own) ?st1 es"
    by (simp add: collect_step_apply st)
  have head: "map ?H (snd e) = map (\<lambda>a. (h a)\<lparr>source_name := ?name\<rparr>) (snd e)"
  proof (rule map_cong [OF refl])
    fix a assume a: "a \<in> set (snd e)"
    with dj have "a \<notin> set (concat (map snd es))" by blast
    then have "?H a = snd ?st1 a" by (rule collect_frame)
    also have "\<dots> = (h a)\<lparr>source_name := ?name\<rparr>" using a by (rule flatten_source_st_written)
    finally show "?H a = (h a)\<lparr>source_name := ?name\<rparr>" .
  qed
  have tail: "map ?H (concat (map snd es))
      = concat (map (\<lambda>e. map (\<lambda>a. (h a)\<lparr>source_name := resolve_source_name names own (fst e)\<rparr>)
                          (snd e)) es)"
  proof -
    have "map ?H (concat (map snd es))
      = concat (map (\<lambda>e. map (\<lambda>a. (snd ?st1 a)\<lparr>source_name := resolve_source_name names own (fst e)\<rparr>)
                          (snd e)) es)"
      by (rule Cons.IH [OF d1])
    also have "\<dots> = concat (map (\<lambda>e. map (\<lambda>a. (h a)\<lparr>source_name := resolve_source_name names own (fst e)\<rparr>)
                          (snd e)) es)"
    proof (rule arg_cong [where f = concat], rule map_cong [OF refl], rule map_cong [OF refl])
      fix e' a assume "e' \<in> set es" and "a \<in> set (snd e')"
      then have "a \<in> set (concat (map snd es))" by auto
      with dj have "a \<notin> set (snd e)" by blast
      then have "snd ?st1 a = h a" by (rule flatten_source_st_frame)
      then show "(snd ?st1 a)\<lparr>source_name := resolve_source_name names own (fst e')\<rparr>
                 = (h a)\<lparr>source_name := resolve_source_name names own (fst e')\<rparr>"
        by simp
    qed
    finally show ?thesis .
  qed
  show ?case
    unfolding step by (simp add: head tail st)
qed

lemma flatten_collect_st_fst: "fst (flatten_collect_st names data h) = refs_of data"
  by (simp add: flatten_collect_st_step collect_fst refs_of_def)

lemma flatten_collect_st_erase:
  "erase1 (snd (flatten_collect_st names data h) a) = erase1 (h a)"
  by (simp add: flatten_collect_st_step collect_erase)

lemma flatten_collect_st_frame:
  "a \<notin> set (refs_of data) \<Longrightarrow> snd (flatten_collect_st names data h) a = h a"
  by (simp add: flatten_collect_st_step collect_frame refs_of_def)

lemma flatten_collect_st_values:
  "unshared data \<Longrightarrow>
   map (snd (flatten_collect_st names data h)) (refs_of data)
   = flatten_collect names (deref h data)"
proof -
  assume "unshared data"
  then have d: "distinct (concat (map snd (item_refs data)))"
    by (simp add: unshared_def refs_of_def)
  show ?thesis
    unfolding flatten_collect_st_step refs_of_def collect_values [OF d]
    by (simp add: flatten_collect_eq deref_def named_items_def [abs_def] comp_def split_beta)
qed

lemma map_sort_key: "map g (sort_key (\<lambda>a. f (g a)) xs) = sort_key f (map g xs)"
proof (induction xs)
  case Nil
  then show ?case by simp
next
  case (Cons x xs)
  have ins: "\<And>ys. map g (insort_key (\<lambda>a. f (g a)) x ys) = insort_key f (g x) (map g ys)"
  proof -
    fix ys show "map g (insort_key (\<lambda>a. f (g a)) x ys) = insort_key f (g x) (map g ys)"
      by (induction ys) simp_all
  qed
  show ?case by (simp add: ins Cons.IH)
qed

lemma flatten_news_st_eq:
  "flatten_news_st ct data names h
   = (sort_key (\<lambda>a. sort_key_of ct (snd (flatten_collect_st names data h) a)) (refs_of data),
      snd (flatten_collect_st names data h))"
proof -
  obtain acc h' where c: "flatten_collect_st names data h = (acc, h')"
    by (cases "flatten_collect_st names data h")
  from flatten_collect_st_fst [of names data h] c have "acc = refs_of data" by simp
  with c show ?thesis by (simp add: flatten_news_st_def)
qed

lemma flatten_news_st_erase:
  "erase1 (snd (flatten_news_st ct data names h) a) = erase1 (h a)"
  by (simp add: flatten_news_st_eq flatten_collect_st_erase)

lemma flatten_news_st_frame:
  "a \<notin> set (refs_of data) \<Longrightarrow> snd (flatten_news_st ct data names h) a = h a"
  by (simp add: flatten_news_st_eq flatten_collect_st_frame)

lemma flatten_news_st_set:
  "set (fst (flatten_news_st ct data names h)) = set (refs_of data)"
  by (simp add: flatten_news_st_eq)

lemma flatten_news_st_values:
  "unshared data \<Longrightarrow>
   map (snd (flatten_news_st ct data names h)) (fst (flatten_news_st ct data names h))
   = flatten_news ct (deref h data) names"
  by (simp add: flatten_news_st_eq map_sort_key flatten_collect_st_values flatten_news_def)

lemma item_identity_erase: "item_identity ct nu (erase1 x) = item_identity ct nu x"
  by (simp add: item_identity_def erase1_def Let_def)

lemma item_identity_erase_eq:
  "erase1 x = erase1 y \<Longrightarrow> item_identity ct nu x = item_identity ct nu y"
  by (metis item_identity_erase)

lemma item_identity_rename:
  "item_identity ct nu (x\<lparr>source_name := n\<rparr>) = item_identity ct nu x"
  by (simp add: item_identity_def Let_def)

lemma yesterday_seen_st_fst: "fst (yesterday_seen_st ct nu y h) = seen_ids ct nu h y"
proof (cases y)
  case None
  then show ?thesis by (simp add: yesterday_seen_st_def seen_ids_def)
next
  case (Some d)
  let ?r = "flatten_news_st ct d (ref_names d) h"
  have "fst (yesterday_seen_st ct nu y h)
        = (\<lambda>a. item_identity ct nu (snd ?r a)) ` set (fst ?r)"
    by (simp add: Some yesterday_seen_st_def split_beta Let_def yesterday_seen_foldl)
  also have "\<dots> = (\<lambda>a. item_identity ct nu (h a)) ` set (refs_of d)"
  proof -
    have "\<And>a. item_identity ct nu (snd ?r a) = item_identity ct nu (h a)"
      by (rule item_identity_erase_eq) (rule flatten_news_st_erase)
    then show ?thesis by (simp add: flatten_news_st_set)
  qed
  finally show ?thesis by (simp add: Some seen_ids_def)
qed

lemma yesterday_seen_st_snd:
  "snd (yesterday_seen_st ct nu y h)
   = (case y of None \<Rightarrow> h | Some d \<Rightarrow> snd (flatten_news_st ct d (ref_names d) h))"
  by (cases y) (simp_all add: yesterday_seen_st_def split_beta Let_def)

lemma yesterday_seen_st_erase:
  "erase1 (snd (yesterday_seen_st ct nu y h) a) = erase1 (h a)"
  by (cases y) (simp_all add: yesterday_seen_st_snd flatten_news_st_erase)

lemma yesterday_seen_st_frame:
  "item_identity ct nu (h a) \<notin> seen_ids ct nu h y \<Longrightarrow> snd (yesterday_seen_st ct nu y h) a = h a"
proof (cases y)
  case None
  then show ?thesis by (simp add: yesterday_seen_st_snd)
next
  case (Some d)
  assume "item_identity ct nu (h a) \<notin> seen_ids ct nu h y"
  then have "a \<notin> set (refs_of d)" by (auto simp: Some seen_ids_def)
  then show ?thesis by (simp add: Some yesterday_seen_st_snd flatten_news_st_frame)
qed

lemma set_flatten_collect_deref:
  "item_identity ct nu ` set (flatten_collect names (deref h d))
   = (\<lambda>a. item_identity ct nu (h a)) ` set (refs_of d)"
proof -
  have "item_identity ct nu ` set (flatten_collect names (deref h d))
        = (\<Union>e \<in> set (item_refs d). (\<lambda>a. item_identity ct nu (h a)) ` set (snd e))"
    by (simp add: flatten_collect_eq deref_def named_items_def image_UN image_image
          item_identity_rename split_beta)
  also have "\<dots> = (\<lambda>a. item_identity ct nu (h a)) ` set (refs_of d)"
    by (simp add: refs_of_def image_UN)
  finally show ?thesis .
qed


lemma foldl_dedup_step_st:
  "foldl (dedup_step_st ct nu h ys) (acc, seen) xs
   = (acc @ walk (\<lambda>a. item_identity ct nu (h a)) ys seen xs,
      seen \<union> (\<lambda>a. item_identity ct nu (h a)) ` set (walk (\<lambda>a. item_identity ct nu (h a)) ys seen xs))"
  by (induction xs arbitrary: acc seen) (auto simp: dedup_step_st_def Let_def)

lemma map_walk: "map g (walk (\<lambda>a. f (g a)) ys seen xs) = walk f ys seen (map g xs)"
  by (induction xs arbitrary: seen) simp_all

lemma walk_not_seen: "x \<in> set (walk f ys seen xs) \<Longrightarrow> f x \<notin> ys"
  by (induction xs arbitrary: seen) (auto split: if_splits)

lemma cap_items_map: "map g (cap_items k xs) = cap_items k (map g xs)"
  by (simp add: cap_items_def take_map)

lemma set_cap_items: "set (cap_items k xs) \<subseteq> set xs"
  by (auto simp: cap_items_def dest: in_set_takeD)

lemma yesterday_seen_deref:
  "yesterday_seen ct nu (map_option (deref h) y) = seen_ids ct nu h y"
proof (cases y)
  case None
  then show ?thesis by (simp add: yesterday_seen_eq seen_ids_def)
next
  case (Some d)
  have "id_to_name (deref h d) = ref_names d" by (simp add: deref_def)
  then show ?thesis
    by (simp add: Some yesterday_seen_eq seen_ids_def set_flatten_collect_deref)
qed

lemma seen_ids_erase:
  assumes "\<And>a. erase1 (h' a) = erase1 (h a)"
  shows "seen_ids ct nu h' y = seen_ids ct nu h y"
proof -
  have fn: "(\<lambda>a. item_identity ct nu (h' a)) = (\<lambda>a. item_identity ct nu (h a))"
    by (rule ext, rule item_identity_erase_eq, rule assms)
  show ?thesis unfolding seen_ids_def fn by (rule refl)
qed

lemma unique_candidates_walk:
  "unique_candidates ct nu today_data yesterday_data
   = walk (item_identity ct nu) (yesterday_seen ct nu yesterday_data) {}
       (flatten_news ct today_data (id_to_name today_data))"
  by (simp add: unique_candidates_def foldl_dedup_step)

lemma build_st_value:
  assumes u: "unshared today_data"
  shows "fst (build_daily_unique_hotspots_st ct nu h today_data yesterday_data max_items)
         = build_daily_unique_hotspots ct nu (deref h today_data)
             (map_option (deref h) yesterday_data) max_items"
proof -
  define ts where "ts = fst (flatten_news_st ct today_data (ref_names today_data) h)"
  define h1 where "h1 = snd (flatten_news_st ct today_data (ref_names today_data) h)"
  define ys where "ys = fst (yesterday_seen_st ct nu yesterday_data h1)"
  define h2 where "h2 = snd (yesterday_seen_st ct nu yesterday_data h1)"
  define cands where "cands = walk (\<lambda>a. item_identity ct nu (h2 a)) ys {} ts"
  have st: "fst (build_daily_unique_hotspots_st ct nu h today_data yesterday_data max_items)
            = (make_lines ct 1 (map h2 (cap_items max_items cands)), int (length cands))"
    unfolding build_daily_unique_hotspots_st_def cands_def h2_def ys_def h1_def ts_def
    by (simp add: split_beta Let_def foldl_dedup_step_st)
  have e1: "\<And>a. erase1 (h1 a) = erase1 (h a)"
    unfolding h1_def by (rule flatten_news_st_erase)
  have ys1: "ys = seen_ids ct nu h1 yesterday_data"
    unfolding ys_def by (rule yesterday_seen_st_fst)
  have ys0: "ys = seen_ids ct nu h yesterday_data"
    unfolding ys1 by (rule seen_ids_erase) (rule e1)
  have id2: "\<And>a. item_identity ct nu (h2 a) = item_identity ct nu (h1 a)"
    unfolding h2_def by (rule item_identity_erase_eq) (rule yesterday_seen_st_erase)
  have fn: "(\<lambda>a. item_identity ct nu (h2 a)) = (\<lambda>a. item_identity ct nu (h1 a))"
    by (rule ext) (rule id2)
  have idn: "id_to_name (deref h today_data) = ref_names today_data"
    by (simp add: deref_def)
  have vals: "map h1 ts
              = flatten_news ct (deref h today_data) (id_to_name (deref h today_data))"
    unfolding h1_def ts_def idn by (rule flatten_news_st_values [OF u])
  have "map h1 cands = walk (item_identity ct nu) ys {} (map h1 ts)"
    unfolding cands_def fn by (rule map_walk)
  also have "\<dots> = unique_candidates ct nu (deref h today_data)
                    (map_option (deref h) yesterday_data)"
    unfolding unique_candidates_walk vals yesterday_seen_deref ys0 by (rule refl)
  finally have cands1: "map h1 cands
                = unique_candidates ct nu (deref h today_data)
                    (map_option (deref h) yesterday_data)" .
  have same: "map h2 (cap_items max_items cands) = map h1 (cap_items max_items cands)"
  proof (rule map_cong [OF refl])
    fix a assume "a \<in> set (cap_items max_items cands)"
    then have "a \<in> set cands" by (rule subsetD [OF set_cap_items])
    then have "item_identity ct nu (h2 a) \<notin> ys"
      unfolding cands_def
      by (rule walk_not_seen [where f = "\<lambda>a. item_identity ct nu (h2 a)"])
    then have "item_identity ct nu (h1 a) \<notin> seen_ids ct nu h1 yesterday_data"
      unfolding id2 ys1 .
    then show "h2 a = h1 a" unfolding h2_def by (rule yesterday_seen_st_frame)
  qed
  have capped: "map h2 (cap_items max_items cands) = cap_items max_items (map h1 cands)"
    using same cap_items_map [of h1 max_items cands] by (rule trans)
  have "(make_lines ct 1 (map h2 (cap_items max_items cands)), int (length cands))
        = (make_lines ct 1 (cap_items max_items (map h1 cands)), int (length (map h1 cands)))"
    by (simp only: capped length_map)
  also have "\<dots> = build_daily_unique_hotspots ct nu (deref h today_data)
             (map_option (deref h) yesterday_data) max_items"
    unfolding cands1 build_daily_unique_hotspots_def Let_def by (rule refl)
  finally show ?thesis unfolding st .
qed

lemma build_st_store_erase:
  "erase1 (snd (build_daily_unique_hotspots_st ct nu h today_data yesterday_data max_items) a)
   = erase1 (h a)"
proof -
  have "snd (build_daily_unique_hotspots_st ct nu h today_data yesterday_data max_items)
        = snd (yesterday_seen_st ct nu yesterday_data
                 (snd (flatten_news_st ct today_data (ref_names today_data) h)))"
    by (simp add: build_daily_unique_hotspots_st_def split_beta Let_def)
  then show ?thesis by (simp add: yesterday_seen_st_erase flatten_news_st_erase)
qed

lemma filter_concat_entry:
  assumes "distinct (map fst es)"
    and "\<forall>e \<in> set es. \<forall>x \<in> set (g e). key x = fst e"
    and "\<forall>x. P x \<longrightarrow> key x = s"
  shows "filter P (concat (map g es))
         = (case map_of es s of None \<Rightarrow> [] | Some l \<Rightarrow> filter P (g (s, l)))"
  using assms(1,2)
proof (induction es)
  case Nil
  then show ?case by simp
next
  case (Cons e es)
  obtain k l where e: "e = (k, l)" by (cases e)
  from Cons.prems have d: "distinct (map fst es)" and nk: "k \<notin> fst ` set es"
    and own: "\<forall>e \<in> set es. \<forall>x \<in> set (g e). key x = fst e"
    and ownk: "\<forall>x \<in> set (g (k, l)). key x = k"
    by (simp_all add: e)
  note ih = Cons.IH [OF d own]
  show ?case
  proof (cases "k = s")
    case True
    with nk have "map_of es s = None" by (simp add: map_of_eq_None_iff)
    with ih have "filter P (concat (map g es)) = []" by simp
    with True show ?thesis by (simp add: e)
  next
    case False
    have "filter P (g (k, l)) = []"
    proof -
      have "\<forall>x \<in> set (g (k, l)). \<not> P x"
      proof
        fix x assume "x \<in> set (g (k, l))"
        with ownk have "key x = k" by blast
        with False assms(3) show "\<not> P x" by blast
      qed
      then show ?thesis by (simp add: filter_empty_conv)
    qed
    with False ih show ?thesis by (simp add: e)
  qed
qed

lemma mset_concat_map:
  "mset (concat (map g es)) = sum_mset (image_mset (\<lambda>e. mset (g e)) (mset es))"
  by (induction es) simp_all

lemma sort_concat_entries:
  assumes dE: "distinct (map fst es)" and dE': "distinct (map fst es')"
    and eq: "set es = set es'"
    and own: "\<forall>e \<in> set es. \<forall>x \<in> set (g e). key x = fst e"
    and fk: "\<forall>x y. f x = f y \<longrightarrow> key x = key y"
  shows "sort_key f (concat (map g es)) = sort_key f (concat (map g es'))"
proof (rule properties_for_sort_key)
  have "distinct es" "distinct es'" using dE dE' by (simp_all add: distinct_map)
  with eq have "mset es = mset es'" by (simp add: set_eq_iff_mset_eq_distinct)
  then show "mset (sort_key f (concat (map g es'))) = mset (concat (map g es))"
    by (simp add: mset_concat_map)
next
  show "sorted (map f (sort_key f (concat (map g es'))))" by simp
next
  fix k
  let ?P = "\<lambda>x. f k = f x"
  have p: "\<forall>x. ?P x \<longrightarrow> key x = key k" using fk by metis
  from own eq have own': "\<forall>e \<in> set es'. \<forall>x \<in> set (g e). key x = fst e" by simp
  have m: "map_of es = map_of es'" using dE dE' eq by (simp add: map_of_inject_set)
  have "filter ?P (sort_key f (concat (map g es'))) = filter ?P (concat (map g es'))"
    using sort_key_stable [of f "f k" "concat (map g es')"] by (simp add: eq_commute)
  also have "\<dots> = (case map_of es' (key k) of None \<Rightarrow> [] | Some l \<Rightarrow> filter ?P (g (key k, l)))"
    by (rule filter_concat_entry [OF dE' own' p])
  also have "\<dots> = filter ?P (concat (map g es))"
    unfolding m [symmetric] by (rule filter_concat_entry [OF dE own p, symmetric])
  finally show "filter ?P (sort_key f (concat (map g es'))) = filter ?P (concat (map g es))" .
qed

lemma named_items_cong:
  "id_to_name d = id_to_name d' \<Longrightarrow> named_items names d = named_items names d'"
  by (rule ext) (simp add: named_items_def)

lemma same_contents_entries:
  assumes "same_contents d d'"
  shows "distinct (map fst (items (erase_names d)))"
    and "distinct (map fst (items (erase_names d')))"
    and "set (items (erase_names d)) = set (items (erase_names d'))"
proof -
  have k: "\<And>x. map fst (items (erase_names x)) = map fst (items x)"
    by (simp add: erase_names_def comp_def split_beta)
  from assms show d: "distinct (map fst (items (erase_names d)))"
    and d': "distinct (map fst (items (erase_names d')))"
    by (simp_all add: same_contents_def is_dict_def k)
  from assms have "map_of (items (erase_names d)) = map_of (items (erase_names d'))"
    by (simp add: same_contents_def)
  with d d' show "set (items (erase_names d)) = set (items (erase_names d'))"
    by (simp add: map_of_inject_set)
qed

lemma flatten_news_contents:
  assumes s: "same_contents d d'" and own: "own_ids d"
  shows "flatten_news ct d (id_to_name d) = flatten_news ct d' (id_to_name d')"
proof -
  let ?n = "id_to_name d"
  let ?g = "named_items ?n (erase_names d)"
  from s have n: "id_to_name d' = ?n" by (simp add: same_contents_def)
  have g: "named_items ?n (erase_names d') = ?g"
    by (rule named_items_cong) (simp add: id_to_name_erase n)
  have own': "\<forall>e \<in> set (items (erase_names d)). \<forall>x \<in> set (?g e). source_id x = fst e"
    using own by (auto simp: own_ids_def erase_names_def named_items_def)
  have fk: "\<forall>x y. sort_key_of ct x = sort_key_of ct y \<longrightarrow> source_id x = source_id y"
    by (simp add: sort_key_of_def)
  have c: "flatten_collect ?n d = concat (map ?g (items (erase_names d)))"
    by (rule trans [OF flatten_collect_erase [symmetric] flatten_collect_eq])
  have c': "flatten_collect ?n d' = concat (map ?g (items (erase_names d')))"
    unfolding g [symmetric]
    by (rule trans [OF flatten_collect_erase [symmetric] flatten_collect_eq])
  have "flatten_news ct d ?n = sort_key (sort_key_of ct) (concat (map ?g (items (erase_names d))))"
    unfolding flatten_news_def c by (rule refl)
  also have "\<dots> = sort_key (sort_key_of ct) (concat (map ?g (items (erase_names d'))))"
    by (rule sort_concat_entries [OF same_contents_entries [OF s] own' fk])
  also have "\<dots> = flatten_news ct d' ?n"
    unfolding flatten_news_def c' by (rule refl)
  finally show ?thesis by (simp add: n)
qed

lemma yesterday_seen_contents:
  assumes "same_contents_opt y y'"
  shows "yesterday_seen ct nu y = yesterday_seen ct nu y'"
proof (cases y)
  case None
  with assms show ?thesis by (cases y') (simp_all add: same_contents_opt_def)
next
  case (Some d)
  with assms obtain d' where y': "y' = Some d'" and s: "same_contents d d'"
    by (cases y') (simp_all add: same_contents_opt_def)
  let ?n = "id_to_name d"
  from s have n: "id_to_name d' = ?n" by (simp add: same_contents_def)
  have g: "named_items ?n (erase_names d') = named_items ?n (erase_names d)"
    by (rule named_items_cong) (simp add: id_to_name_erase n)
  have c: "flatten_collect ?n d
           = concat (map (named_items ?n (erase_names d)) (items (erase_names d)))"
    by (rule trans [OF flatten_collect_erase [symmetric] flatten_collect_eq])
  have c': "flatten_collect ?n d'
            = concat (map (named_items ?n (erase_names d)) (items (erase_names d')))"
    unfolding g [symmetric]
    by (rule trans [OF flatten_collect_erase [symmetric] flatten_collect_eq])
  have "set (flatten_collect ?n d) = set (flatten_collect ?n d')"
    unfolding c c' by (simp add: same_contents_entries(3) [OF s])
  then show ?thesis
    by (simp add: Some y' yesterday_seen_eq n)
qed

lemma build_contents:
  assumes "same_contents d d'" and "own_ids d" and "same_contents_opt y y'"
  shows "build_daily_unique_hotspots ct nu d y max_items
         = build_daily_unique_hotspots ct nu d' y' max_items"
  unfolding build_daily_unique_hotspots_def unique_candidates_def
  by (simp add: flatten_news_contents [OF assms(1,2)] yesterday_seen_contents [OF assms(3)])

lemma erase_names_deref:
  assumes "\<And>a. erase1 (h' a) = erase1 (h a)"
  shows "erase_names (deref h' d) = erase_names (deref h d)"
proof -
  have "\<And>a. (h' a)\<lparr>source_name := []\<rparr> = (h a)\<lparr>source_name := []\<rparr>"
    using assms by (simp add: erase1_def)
  then show ?thesis
    by (simp add: erase_names_def deref_def comp_def split_beta)
qed

lemma flatten_news_erased:
  assumes "erase_names d = erase_names d'"
  shows "flatten_news ct d (id_to_name d) = flatten_news ct d' (id_to_name d')"
proof -
  have "flatten_news ct d (id_to_name d)
        = flatten_news ct (erase_names d) (id_to_name (erase_names d))"
    by (rule flatten_news_erase)
  also have "\<dots> = flatten_news ct (erase_names d') (id_to_name (erase_names d'))"
    using assms by simp
  also have "\<dots> = flatten_news ct d' (id_to_name d')"
    by (rule flatten_news_erase [symmetric])
  finally show ?thesis .
qed

lemma build_st_rerun:
  assumes u: "unshared today_data"
  shows "fst (build_daily_unique_hotspots_st ct nu
                (snd (build_daily_unique_hotspots_st ct nu h today_data yesterday_data max_items))
                today_data yesterday_data max_items)
         = fst (build_daily_unique_hotspots_st ct nu h today_data yesterday_data max_items)"
proof -
  define h2 where
    "h2 = snd (build_daily_unique_hotspots_st ct nu h today_data yesterday_data max_items)"
  have e: "\<And>a. erase1 (h2 a) = erase1 (h a)"
    unfolding h2_def by (rule build_st_store_erase)
  have f: "flatten_news ct (deref h2 today_data) (id_to_name (deref h2 today_data))
           = flatten_news ct (deref h today_data) (id_to_name (deref h today_data))"
    by (rule flatten_news_erased) (rule erase_names_deref, rule e)
  have y: "yesterday_seen ct nu (map_option (deref h2) yesterday_data)
           = yesterday_seen ct nu (map_option (deref h) yesterday_data)"
    unfolding yesterday_seen_deref by (rule seen_ids_erase) (rule e)
  have "build_daily_unique_hotspots ct nu (deref h2 today_data)
          (map_option (deref h2) yesterday_data) max_items
        = build_daily_unique_hotspots ct nu (deref h today_data)
          (map_option (deref h) yesterday_data) max_items"
    unfolding build_daily_unique_hotspots_def unique_candidates_def f y by (rule refl)
  then show ?thesis
    unfolding h2_def [symmetric] build_st_value [OF u] .
qed

lemma unranked_key: "\<not> has_rank x \<Longrightarrow> fst (sort_key_of ct x) = 999"
  by (simp add: has_rank_def sort_key_of_def rank_or_def split: option.splits)

lemma ranked_key: "has_rank x \<Longrightarrow> fst (sort_key_of ct x) = rank_or 0 (rank x)"
  by (simp add: has_rank_def sort_key_of_def rank_or_def split: option.splits)

lemma sorted_positions:
  assumes s: "sorted (map f xs)" and i: "i < length xs" and j: "j < length xs"
    and lt: "f (xs ! i) < f (xs ! j)"
  shows "i < j"
proof (rule ccontr)
  assume "\<not> i < j"
  then have "j \<le> i" by simp
  with s i have "map f xs ! j \<le> map f xs ! i"
    by (simp add: sorted_iff_nth_mono)
  with i j have "f (xs ! j) \<le> f (xs ! i)" by simp
  with lt show False by simp
qed

lemma resolve_first_nonempty:
  "resolve_source_name names own sid =
     (case filter (\<lambda>s. s \<noteq> []) [or_empty (names sid), or_empty (own sid), sid] of
        [] \<Rightarrow> [] | s # _ \<Rightarrow> s)"
  by (simp add: resolve_source_name_def truthy_def or_empty_def split: option.splits)

lemma resolve_nonempty: "sid \<noteq> [] \<Longrightarrow> resolve_source_name names own sid \<noteq> []"
  by (simp add: resolve_source_name_def truthy_def or_empty_def split: option.splits)

lemma split_first:
  assumes "c \<in> set s"
  shows "\<exists>a b. s = a @ c # b \<and> c \<notin> set a
           \<and> takeWhile (\<lambda>x. x \<noteq> c) s = a \<and> tl (dropWhile (\<lambda>x. x \<noteq> c) s) = b"
proof -
  from split_list_first [OF assms] obtain a b where s: "s = a @ c # b" and a: "c \<notin> set a"
    by blast
  have ne: "\<And>x. x \<in> set a \<Longrightarrow> x \<noteq> c" using a by auto
  have "takeWhile (\<lambda>x. x \<noteq> c) (a @ c # b) = a"
    using ne by simp
  moreover have "tl (dropWhile (\<lambda>x. x \<noteq> c) (a @ c # b)) = b"
    using ne by simp
  ultimately show ?thesis using s a by blast
qed

lemma split_max_no_sep: "c \<notin> set s \<Longrightarrow> split_max c n s = [s]"
  by (cases n) simp_all

lemma split_max_length: "length (split_max c n s) = Suc (min n (count_list s c))"
proof (induction n arbitrary: s)
  case 0
  then show ?case by simp
next
  case (Suc n)
  show ?case
  proof (cases "c \<in> set s")
    case False
    then have "count_list s c = 0" by (simp add: count_list_0_iff)
    with False show ?thesis by simp
  next
    case True
    from split_first [OF True] obtain a b where s: "s = a @ c # b" and a: "c \<notin> set a"
      and tw: "takeWhile (\<lambda>x. x \<noteq> c) s = a" and dw: "tl (dropWhile (\<lambda>x. x \<noteq> c) s) = b"
      by blast
    have "count_list a c = 0" using a by (simp add: count_list_0_iff)
    then have cnt: "count_list s c = Suc (count_list b c)" unfolding s by simp
    have "split_max c (Suc n) s = a # split_max c n b"
      using True tw dw by simp
    then show ?thesis by (simp add: Suc.IH cnt)
  qed
qed

lemma split_max_two:
  assumes "2 \<le> count_list s c"
  shows "\<exists>y m d. s = y @ c # m @ c # d \<and> c \<notin> set y \<and> c \<notin> set m
           \<and> split_max c 2 s = [y, m, d]"
proof -
  have "count_list s c \<noteq> 0" using assms by simp
  then have in_s: "c \<in> set s" by (simp add: count_list_0_iff)
  from split_first [OF in_s] obtain y b where s: "s = y @ c # b" and y: "c \<notin> set y"
    and tw: "takeWhile (\<lambda>x. x \<noteq> c) s = y" and dw: "tl (dropWhile (\<lambda>x. x \<noteq> c) s) = b"
    by blast
  have "count_list y c = 0" using y by (simp add: count_list_0_iff)
  with assms have "count_list b c \<noteq> 0" unfolding s by simp
  then have in_b: "c \<in> set b" by (simp add: count_list_0_iff)
  from split_first [OF in_b] obtain m d where b: "b = m @ c # d" and m: "c \<notin> set m"
    and tw': "takeWhile (\<lambda>x. x \<noteq> c) b = m" and dw': "tl (dropWhile (\<lambda>x. x \<noteq> c) b) = d"
    by blast
  have "split_max c (Suc (Suc 0)) s = [y, m, d]"
    using in_s in_b tw dw tw' dw' by simp
  then have "split_max c 2 s = [y, m, d]" by (simp add: numeral_2_eq_2)
  with s b y m show ?thesis by blast
qed

lemma unpack3_ok: "(\<exists>t. unpack3 ps = Inr t) = (length ps = 3)"
  by (auto simp: unpack3_def split: list.splits)

lemma unpack3_error: "unpack3 ps = Inl e \<Longrightarrow> e = ValueError"
  by (auto simp: unpack3_def split: list.splits)

lemma split_date_ok: "(\<exists>t. split_date s = Inr t) = (2 \<le> count_list s CHR ''-'')"
  unfolding split_date_def unpack3_ok split_max_length by auto

lemma split_date_error: "(split_date s = Inl ValueError) = (count_list s CHR ''-'' < 2)"
proof -
  have "(split_date s = Inl ValueError) = (\<not> (\<exists>t. split_date s = Inr t))"
  proof (cases "split_date s")
    case (Inl e)
    then have "e = ValueError" unfolding split_date_def by (rule unpack3_error)
    with Inl show ?thesis by simp
  next
    case (Inr t)
    then have "\<exists>t'. split_date s = Inr t'" by blast
    moreover have "split_date s \<noteq> Inl ValueError" using Inr by simp
    ultimately show ?thesis by simp
  qed
  then show ?thesis unfolding split_date_ok by (simp only: not_le)
qed

lemma split_date_parts:
  "CHR ''-'' \<notin> set y \<Longrightarrow> CHR ''-'' \<notin> set m \<Longrightarrow>
   split_date (y @ ''-'' @ m @ ''-'' @ d) = Inr (y, m, d)"
proof -
  assume y: "CHR ''-'' \<notin> set y" and m: "CHR ''-'' \<notin> set m"
  have ny: "\<And>x. x \<in> set y \<Longrightarrow> x \<noteq> CHR ''-''" using y by auto
  have nm: "\<And>x. x \<in> set m \<Longrightarrow> x \<noteq> CHR ''-''" using m by auto
  have "split_max CHR ''-'' (Suc (Suc 0)) (y @ CHR ''-'' # m @ CHR ''-'' # d) = [y, m, d]"
    using ny nm by simp
  then have "split_max CHR ''-'' 2 (y @ ''-'' @ m @ ''-'' @ d) = [y, m, d]"
    by (simp add: numeral_2_eq_2)
  then show ?thesis by (simp add: split_date_def unpack3_def)
qed

lemma build_r2_key_fails:
  "(\<exists>e. build_r2_key prefix date_str filename = Inl e) = (count_list date_str CHR ''-'' < 2)"
proof (cases "split_date date_str")
  case (Inl e)
  then have e: "e = ValueError" unfolding split_date_def by (rule unpack3_error)
  with Inl have "count_list date_str CHR ''-'' < 2" by (simp add: split_date_error)
  with Inl show ?thesis by (simp add: build_r2_key_def)
next
  case (Inr t)
  then have "2 \<le> count_list date_str CHR ''-''" using split_date_ok by blast
  with Inr show ?thesis by (simp add: build_r2_key_def Let_def split: prod.splits)
qed

lemma join_nonempty: "ps \<noteq> [] \<Longrightarrow> \<forall>p \<in> set ps. p \<noteq> [] \<Longrightarrow> join sep ps \<noteq> []"
  by (induction sep ps rule: join.induct) simp_all

lemma join_snoc: "ps \<noteq> [] \<Longrightarrow> join sep (ps @ [q]) = join sep ps @ sep @ q"
  by (induction sep ps rule: join.induct) simp_all

lemma hd_join: "p \<noteq> [] \<Longrightarrow> hd (join sep (p # ps)) = hd p"
  by (cases ps) simp_all

lemma join_segments:
  "\<forall>p \<in> set ps. p \<noteq> [] \<and> no_empty_segment p \<Longrightarrow> no_empty_segment (join ''/'' ps)"
proof (induction "''/''" ps rule: join.induct)
  case 1
  then show ?case by (simp add: no_empty_segment_def)
next
  case (2 p)
  then show ?case by simp
next
  case (3 p q ps)
  let ?r = "join ''/'' (q # ps)"
  have p: "p \<noteq> []" "no_empty_segment p" using 3 by simp_all
  have q: "q \<noteq> []" using 3 by simp
  have r: "no_empty_segment ?r" using 3 by simp
  have rne: "?r \<noteq> []" using 3 by (intro join_nonempty) simp_all
  have hp: "hd p \<noteq> CHR ''/''" and lp: "last p \<noteq> CHR ''/''"
    using p by (simp_all add: no_empty_segment_def)
  have hr: "hd ?r \<noteq> CHR ''/''" and lr: "last ?r \<noteq> CHR ''/''"
    using r rne by (simp_all add: no_empty_segment_def)
  have sp: "successively (\<lambda>a b. \<not> (a = CHR ''/'' \<and> b = CHR ''/'')) p"
    using p by (simp add: no_empty_segment_def)
  have sr: "successively (\<lambda>a b. \<not> (a = CHR ''/'' \<and> b = CHR ''/'')) ?r"
    using r by (simp add: no_empty_segment_def)
  have "successively (\<lambda>a b. \<not> (a = CHR ''/'' \<and> b = CHR ''/'')) (p @ CHR ''/'' # ?r)"
    using sp sr lp hr rne p(1) by (simp add: successively_append_iff successively_Cons)
  moreover have "hd (p @ CHR ''/'' # ?r) \<noteq> CHR ''/''" using p(1) hp by simp
  moreover have "last (p @ CHR ''/'' # ?r) \<noteq> CHR ''/''" using rne lr by simp
  ultimately show ?case by (simp add: no_empty_segment_def)
qed

lemma split_all_plain: "CHR ''/'' \<notin> set s \<Longrightarrow> split_all CHR ''/'' s = [s]"
  by (simp add: split_all_def split_max_no_sep)

lemma path_parse_plain:
  "plain_name s \<Longrightarrow> path_parse s = \<lparr> root = [], parts = [s] \<rparr>"
proof -
  assume a: "plain_name s"
  then obtain c cs where s: "s = c # cs" by (cases s) (simp_all add: plain_name_def)
  from a s have c: "c \<noteq> CHR ''/''" by (auto simp: plain_name_def)
  have t: "take 1 s \<noteq> ''/''" "take 2 s \<noteq> ''//''"
    using c s by (cases cs; simp)+
  from a have "split_all CHR ''/'' s = [s]" by (simp add: plain_name_def split_all_plain)
  with a t show ?thesis by (simp add: path_parse_def plain_name_def)
qed

lemma path_div_plain: "plain_name s \<Longrightarrow> path_div p s = p\<lparr>parts := parts p @ [s]\<rparr>"
proof -
  assume a: "plain_name s"
  then obtain c cs where s: "s = c # cs" by (cases s) (simp_all add: plain_name_def)
  from a s have c: "c \<noteq> CHR ''/''" by (auto simp: plain_name_def)
  have t: "take 1 s \<noteq> ''/''" using c s by simp
  show ?thesis using t by (simp add: path_div_def path_parse_plain [OF a])
qed

lemma path_str_snoc:
  "parts p \<noteq> [] \<Longrightarrow> path_str (p\<lparr>parts := parts p @ [s]\<rparr>) = path_str p @ ''/'' @ s"
  by (simp add: path_str_def join_snoc)

lemma digits_plain:
  assumes "digits s" and "s \<noteq> []"
  shows "plain_name s" and "CHR ''-'' \<notin> set s"
proof -
  have d: "\<And>c. c \<in> set s \<Longrightarrow> c \<in> set ''0123456789''"
    using assms(1) by (simp add: digits_def list_all_iff)
  show "CHR ''-'' \<notin> set s" using d by fastforce
  have "CHR ''/'' \<notin> set s" using d by fastforce
  moreover have "s \<noteq> ''.''"
  proof
    assume "s = ''.''"
    then have "CHR ''.'' \<in> set s" by simp
    from d [OF this] show False by simp
  qed
  ultimately show "plain_name s" using assms(2) by (simp add: plain_name_def)
qed

lemma iso_date_parts:
  assumes "iso_date y m d"
  shows "plain_name y" "plain_name m" "plain_name d" "CHR ''-'' \<notin> set y" "CHR ''-'' \<notin> set m"
proof -
  from assms have "digits y" "y \<noteq> []" "digits m" "m \<noteq> []" "digits d" "d \<noteq> []"
    by (auto simp: iso_date_def)
  then show "plain_name y" "plain_name m" "plain_name d" "CHR ''-'' \<notin> set y" "CHR ''-'' \<notin> set m"
    by (simp_all add: digits_plain)
qed

lemma path_div_str:
  assumes "plain_name s" and "parts p \<noteq> []"
  shows "path_str (path_div p s) = path_str p @ ''/'' @ s" and "parts (path_div p s) \<noteq> []"
  using assms by (simp_all add: path_div_plain path_str_snoc)

lemma local_path:
  assumes b: "normal_base base" and y: "plain_name y" and m: "plain_name m"
    and d: "plain_name d" and f: "plain_name filename"
  shows "path_str (path_div (path_div (path_div (path_div (path_parse base) y) m) d) filename)
         = base @ ''/'' @ y @ ''/'' @ m @ ''/'' @ d @ ''/'' @ filename"
proof -
  let ?p0 = "path_parse base"
  let ?p1 = "path_div ?p0 y"
  let ?p2 = "path_div ?p1 m"
  let ?p3 = "path_div ?p2 d"
  from b have n0: "parts ?p0 \<noteq> []" and s0: "path_str ?p0 = base"
    by (simp_all add: normal_base_def)
  have s1: "path_str ?p1 = base @ ''/'' @ y" and n1: "parts ?p1 \<noteq> []"
    using path_div_str [OF y n0] s0 by simp_all
  have s2: "path_str ?p2 = base @ ''/'' @ y @ ''/'' @ m" and n2: "parts ?p2 \<noteq> []"
    using path_div_str [OF m n1] s1 by simp_all
  have s3: "path_str ?p3 = base @ ''/'' @ y @ ''/'' @ m @ ''/'' @ d" and n3: "parts ?p3 \<noteq> []"
    using path_div_str [OF d n2] s2 by simp_all
  show ?thesis
    using path_div_str [OF f n3] s3 by simp
qed

section \<open>The claims\<close>

text \<open>
  C5. The identity of an item is \<open>url:\<close> followed by the normalised, trimmed URL when
  the trimmed URL is not empty, and \<open>title:\<close> followed by the lowercased cleaned title
  otherwise. An item with an empty title and an empty URL has the identity \<open>title:\<close>,
  when cleaning the empty title gives the empty title.
\<close>

theorem item_identity_key:
  "item_identity ct nu it =
     (if strip (or_empty (url it)) \<noteq> []
      then ''url:'' @ nu (strip (or_empty (url it))) (source_id it)
      else ''title:'' @ lower (ct (title it)))
   \<and> (ct [] = [] \<longrightarrow> title it = [] \<longrightarrow> or_empty (url it) = [] \<longrightarrow>
        item_identity ct nu it = ''title:'')"
  by (simp add: item_identity_def Let_def strip_Nil lower_Nil)

theorem item_identity_key_witness:
  "strip [] = [] \<and> title empty_item = [] \<and> or_empty (url empty_item) = [] \<and>
   item_identity strip (\<lambda>u s. u) empty_item = ''title:''"
proof -
  have h1: "strip [] = []" by (rule strip_Nil)
  have h2: "title empty_item = []" by (simp add: empty_item_def)
  have h3: "or_empty (url empty_item) = []" by (simp add: empty_item_def or_empty_def)
  from item_identity_key [of strip "\<lambda>u s. u" empty_item] h1 h2 h3
  show ?thesis by blast
qed

text \<open>
  C3. The \<open>idx\<close> fields of the returned lines are 1, 2, ..., up to the number of lines,
  in list order, whatever the snapshots and \<open>max_items\<close> are.
\<close>

theorem idx_contiguous:
  "map idx (fst (build_daily_unique_hotspots ct nu today_data yesterday_data max_items))
   = [1..int (length (fst (build_daily_unique_hotspots ct nu today_data yesterday_data max_items)))]"
  by (simp add: build_daily_unique_hotspots_def Let_def idx_make_lines length_make_lines
        upto_from_one)

text \<open>
  C1. The candidates are the items of today's sorted sequence, in that order, at exactly
  the positions whose identity is not among the identities of yesterday's flattened items
  (none when there is no snapshot of yesterday) and is not the identity of an item at an
  earlier position of today's sequence.
\<close>

theorem candidates_accepted:
  "unique_candidates ct nu today_data yesterday_data =
     (let today = flatten_news ct today_data (id_to_name today_data);
          ident = item_identity ct nu;
          yset = (case yesterday_data of
                    None \<Rightarrow> {}
                  | Some y \<Rightarrow> ident ` set (flatten_news ct y (id_to_name y)))
      in map (\<lambda>i. today ! i)
           (filter (\<lambda>i. ident (today ! i) \<notin> yset \<and> ident (today ! i) \<notin> ident ` set (take i today))
              [0..<length today]))"
proof -
  have y: "yesterday_seen ct nu yesterday_data =
             (case yesterday_data of
                None \<Rightarrow> {}
              | Some y \<Rightarrow> item_identity ct nu ` set (flatten_news ct y (id_to_name y)))"
    by (simp add: yesterday_seen_eq set_flatten_news split: option.splits)
  show ?thesis
    unfolding unique_candidates_def foldl_dedup_step y Let_def
    by (simp add: walk_positions)
qed

theorem candidates_accepted_witness:
  "unique_candidates strip (\<lambda>u s. u) ex_today (Some ex_yesterday)
   = [w1\<lparr>source_name := ''Weibo''\<rparr>, w2\<lparr>source_name := ''Weibo''\<rparr>]"
proof -
  have e: "(let today = flatten_news strip ex_today (id_to_name ex_today);
          ident = item_identity strip (\<lambda>u s. u);
          yset = (case Some ex_yesterday of
                    None \<Rightarrow> {}
                  | Some y \<Rightarrow> ident ` set (flatten_news strip y (id_to_name y)))
      in map (\<lambda>i. today ! i)
           (filter (\<lambda>i. ident (today ! i) \<notin> yset \<and> ident (today ! i) \<notin> ident ` set (take i today))
              [0..<length today]))
     = [w1\<lparr>source_name := ''Weibo''\<rparr>, w2\<lparr>source_name := ''Weibo''\<rparr>]"
    by code_simp
  show ?thesis
    by (rule trans [OF candidates_accepted [of strip "\<lambda>u s. u" ex_today "Some ex_yesterday"] e])
qed

text \<open>
  C2 (amended). When no item object is listed twice in today's snapshot, the result is the
  value of \<open>build_daily_unique_hotspots\<close> at the contents of the snapshots: it depends on
  nothing else. Two invocations on snapshots with the same contents (equal name mappings,
  equal dicts whatever the insertion order, the items' previous \<open>source_name\<close> apart) and
  the same \<open>max_items\<close> return the same lines and the same count, when in both no object
  is listed twice in today's snapshot and every item of today's snapshot is listed under its
  own \<open>source_id\<close>. A second invocation on the same objects, as the first one left them,
  returns the same result again.
\<close>

theorem build_deterministic:
  "(unshared today_data \<longrightarrow>
      fst (build_daily_unique_hotspots_st ct nu h today_data yesterday_data max_items)
      = build_daily_unique_hotspots ct nu (deref h today_data)
          (map_option (deref h) yesterday_data) max_items)
   \<and> (unshared today_data \<longrightarrow> unshared today_data' \<longrightarrow> own_ids (deref h today_data) \<longrightarrow>
       same_contents (deref h today_data) (deref h' today_data') \<longrightarrow>
       same_contents_opt (map_option (deref h) yesterday_data)
         (map_option (deref h') yesterday_data') \<longrightarrow>
       fst (build_daily_unique_hotspots_st ct nu h today_data yesterday_data max_items)
       = fst (build_daily_unique_hotspots_st ct nu h' today_data' yesterday_data' max_items))
   \<and> (unshared today_data \<longrightarrow>
       fst (build_daily_unique_hotspots_st ct nu
              (snd (build_daily_unique_hotspots_st ct nu h today_data yesterday_data max_items))
              today_data yesterday_data max_items)
       = fst (build_daily_unique_hotspots_st ct nu h today_data yesterday_data max_items))"
proof (intro conjI impI)
  assume "unshared today_data"
  then show "fst (build_daily_unique_hotspots_st ct nu h today_data yesterday_data max_items)
      = build_daily_unique_hotspots ct nu (deref h today_data)
          (map_option (deref h) yesterday_data) max_items"
    by (rule build_st_value)
next
  assume u: "unshared today_data" and u': "unshared today_data'"
    and own: "own_ids (deref h today_data)"
    and s: "same_contents (deref h today_data) (deref h' today_data')"
    and sy: "same_contents_opt (map_option (deref h) yesterday_data)
         (map_option (deref h') yesterday_data')"
  show "fst (build_daily_unique_hotspots_st ct nu h today_data yesterday_data max_items)
       = fst (build_daily_unique_hotspots_st ct nu h' today_data' yesterday_data' max_items)"
    unfolding build_st_value [OF u] build_st_value [OF u']
    by (rule build_contents [OF s own sy])
next
  assume "unshared today_data"
  then show "fst (build_daily_unique_hotspots_st ct nu
              (snd (build_daily_unique_hotspots_st ct nu h today_data yesterday_data max_items))
              today_data yesterday_data max_items)
       = fst (build_daily_unique_hotspots_st ct nu h today_data yesterday_data max_items)"
    by (rule build_st_rerun)
qed

theorem build_deterministic_witness:
  "unshared ex_refs_today \<and> unshared ex_refs_today2
   \<and> own_ids (deref ex_store ex_refs_today)
   \<and> same_contents (deref ex_store ex_refs_today) (deref ex_store2 ex_refs_today2)
   \<and> same_contents_opt (map_option (deref ex_store) (Some ex_refs_yesterday))
        (map_option (deref ex_store2) (Some ex_refs_yesterday2))
   \<and> deref ex_store ex_refs_today = ex_today
   \<and> fst (build_daily_unique_hotspots_st strip (\<lambda>u s. u) ex_store ex_refs_today
            (Some ex_refs_yesterday) 1)
     = build_daily_unique_hotspots strip (\<lambda>u s. u) ex_today (Some ex_yesterday) 1
   \<and> fst (build_daily_unique_hotspots_st strip (\<lambda>u s. u) ex_store ex_refs_today
            (Some ex_refs_yesterday) 1)
     = fst (build_daily_unique_hotspots_st strip (\<lambda>u s. u) ex_store2 ex_refs_today2
              (Some ex_refs_yesterday2) 1)
   \<and> fst (build_daily_unique_hotspots_st strip (\<lambda>u s. u)
            (snd (build_daily_unique_hotspots_st strip (\<lambda>u s. u) ex_store ex_refs_today
                    (Some ex_refs_yesterday) 1))
            ex_refs_today (Some ex_refs_yesterday) 1)
     = fst (build_daily_unique_hotspots_st strip (\<lambda>u s. u) ex_store ex_refs_today
              (Some ex_refs_yesterday) 1)"
proof -
  have u: "unshared ex_refs_today"
    by (simp add: unshared_def refs_of_def ex_refs_today_def)
  have u2: "unshared ex_refs_today2"
    by (simp add: unshared_def refs_of_def ex_refs_today2_def)
  have dt: "deref ex_store ex_refs_today = ex_today"
    by (simp add: deref_def ex_refs_today_def ex_today_def ex_store_def)
  have dy: "deref ex_store ex_refs_yesterday = ex_yesterday"
    by (simp add: deref_def ex_refs_yesterday_def ex_yesterday_def ex_store_def)
  have own: "own_ids (deref ex_store ex_refs_today)"
    unfolding dt
    by (simp add: own_ids_def ex_today_def w1_def w2_def w3_def z1_def z2_def)
  have s: "same_contents (deref ex_store ex_refs_today) (deref ex_store2 ex_refs_today2)"
    by (auto simp: same_contents_def is_dict_def deref_def ex_refs_today_def
          ex_refs_today2_def erase_names_def fun_eq_iff ex_store2_def ex_store_def)
  have sy: "same_contents_opt (map_option (deref ex_store) (Some ex_refs_yesterday))
        (map_option (deref ex_store2) (Some ex_refs_yesterday2))"
    by (auto simp: same_contents_opt_def same_contents_def is_dict_def deref_def
          ex_refs_yesterday_def ex_refs_yesterday2_def erase_names_def fun_eq_iff
          ex_store2_def ex_store_def)
  note t = build_deterministic [of ex_refs_today strip "\<lambda>u s. u" ex_store
      "Some ex_refs_yesterday" 1 ex_refs_today2 ex_store2 "Some ex_refs_yesterday2"]
  from t u have a: "fst (build_daily_unique_hotspots_st strip (\<lambda>u s. u) ex_store ex_refs_today
            (Some ex_refs_yesterday) 1)
     = build_daily_unique_hotspots strip (\<lambda>u s. u) (deref ex_store ex_refs_today)
         (map_option (deref ex_store) (Some ex_refs_yesterday)) 1"
    by blast
  from t u u2 own s sy have b: "fst (build_daily_unique_hotspots_st strip (\<lambda>u s. u) ex_store
            ex_refs_today (Some ex_refs_yesterday) 1)
     = fst (build_daily_unique_hotspots_st strip (\<lambda>u s. u) ex_store2 ex_refs_today2
              (Some ex_refs_yesterday2) 1)"
    by blast
  from t u have c: "fst (build_daily_unique_hotspots_st strip (\<lambda>u s. u)
            (snd (build_daily_unique_hotspots_st strip (\<lambda>u s. u) ex_store ex_refs_today
                    (Some ex_refs_yesterday) 1))
            ex_refs_today (Some ex_refs_yesterday) 1)
     = fst (build_daily_unique_hotspots_st strip (\<lambda>u s. u) ex_store ex_refs_today
              (Some ex_refs_yesterday) 1)"
    by blast
  from a have a': "fst (build_daily_unique_hotspots_st strip (\<lambda>u s. u) ex_store ex_refs_today
            (Some ex_refs_yesterday) 1)
     = build_daily_unique_hotspots strip (\<lambda>u s. u) ex_today (Some ex_yesterday) 1"
    by (simp add: dt dy)
  show ?thesis
    by (intro conjI u u2 own s sy dt a' b c)
qed

text \<open>
  As C2 is stated it fails: the result depends on more than the contents. One object listed
  under the keys \<open>a\<close> and \<open>b\<close> carries the name of \<open>b\<close>, the last written, where two equal
  objects give the name of \<open>a\<close>; and two items of equal sort key listed under different
  keys come out in the insertion order of the dict.
\<close>

theorem build_deterministic_counterexample:
  "deref shared_store refs_aliased = deref shared_store refs_separate
   \<and> map platform_name
        (fst (fst (build_daily_unique_hotspots_st strip (\<lambda>u s. u) shared_store
                     refs_aliased None 0))) = [''NameB'']
   \<and> map platform_name
        (fst (fst (build_daily_unique_hotspots_st strip (\<lambda>u s. u) shared_store
                     refs_separate None 0))) = [''NameA'']
   \<and> same_contents (deref order_store refs_ab) (deref order_store refs_ba)
   \<and> map line_url
        (fst (fst (build_daily_unique_hotspots_st strip (\<lambda>u s. u) order_store
                     refs_ab None 0))) = [''http://x.com/1'', ''http://x.com/2'']
   \<and> map line_url
        (fst (fst (build_daily_unique_hotspots_st strip (\<lambda>u s. u) order_store
                     refs_ba None 0))) = [''http://x.com/2'', ''http://x.com/1'']"
proof (intro conjI)
  show "deref shared_store refs_aliased = deref shared_store refs_separate"
    by (simp add: deref_def refs_aliased_def refs_separate_def shared_store_def)
  show "map platform_name
        (fst (fst (build_daily_unique_hotspots_st strip (\<lambda>u s. u) shared_store
                     refs_aliased None 0))) = [''NameB'']"
    by code_simp
  show "map platform_name
        (fst (fst (build_daily_unique_hotspots_st strip (\<lambda>u s. u) shared_store
                     refs_separate None 0))) = [''NameA'']"
    by code_simp
  show "same_contents (deref order_store refs_ab) (deref order_store refs_ba)"
    by (auto simp: same_contents_def is_dict_def deref_def refs_ab_def refs_ba_def
          erase_names_def fun_eq_iff)
  show "map line_url
        (fst (fst (build_daily_unique_hotspots_st strip (\<lambda>u s. u) order_store
                     refs_ab None 0))) = [''http://x.com/1'', ''http://x.com/2'']"
    by code_simp
  show "map line_url
        (fst (fst (build_daily_unique_hotspots_st strip (\<lambda>u s. u) order_store
                     refs_ba None 0))) = [''http://x.com/2'', ''http://x.com/1'']"
    by code_simp
qed

text \<open>
  C4. With \<open>C\<close> candidates: a positive \<open>max_items = k\<close> returns the lines of the first
  \<open>k\<close> candidates, which are the first \<open>k\<close> lines of the untruncated result, \<open>min k C\<close>
  in number; a non-positive \<open>max_items\<close> returns \<open>C\<close> lines; the count returned is \<open>C\<close>
  in both cases.
\<close>

theorem truncation:
  "(0 < max_items \<longrightarrow>
      fst (build_daily_unique_hotspots ct nu today_data yesterday_data max_items)
        = make_lines ct 1 (take (nat max_items) (unique_candidates ct nu today_data yesterday_data))
      \<and> fst (build_daily_unique_hotspots ct nu today_data yesterday_data max_items)
        = take (nat max_items) (fst (build_daily_unique_hotspots ct nu today_data yesterday_data 0))
      \<and> length (fst (build_daily_unique_hotspots ct nu today_data yesterday_data max_items))
        = min (nat max_items) (length (unique_candidates ct nu today_data yesterday_data)))
   \<and> (max_items \<le> 0 \<longrightarrow>
      length (fst (build_daily_unique_hotspots ct nu today_data yesterday_data max_items))
        = length (unique_candidates ct nu today_data yesterday_data))
   \<and> snd (build_daily_unique_hotspots ct nu today_data yesterday_data max_items)
        = int (length (unique_candidates ct nu today_data yesterday_data))"
  by (simp add: build_daily_unique_hotspots_def Let_def cap_items_def length_make_lines
        make_lines_take min.commute)

theorem truncation_witness:
  "length (unique_candidates strip (\<lambda>u s. u) ex_today None) = 3
   \<and> (0::int) < 2
   \<and> length (fst (build_daily_unique_hotspots strip (\<lambda>u s. u) ex_today None 2)) = 2
   \<and> snd (build_daily_unique_hotspots strip (\<lambda>u s. u) ex_today None 2) = 3
   \<and> (0::int) \<le> 0
   \<and> length (fst (build_daily_unique_hotspots strip (\<lambda>u s. u) ex_today None 0)) = 3
   \<and> snd (build_daily_unique_hotspots strip (\<lambda>u s. u) ex_today None 0) = 3"
proof -
  have c: "length (unique_candidates strip (\<lambda>u s. u) ex_today None) = 3"
    by code_simp
  from truncation [of 2 strip "\<lambda>u s. u" ex_today None]
    truncation [of 0 strip "\<lambda>u s. u" ex_today None] c
  show ?thesis by (simp add: length_make_lines)
qed

text \<open>
  C6 (amended). The flattened sequence is sorted ascending by the key (rank, or 999 when
  the rank is absent or 0; \<open>source_id\<close>; cleaned title), and every item with a rank below
  999 stands before every item without a rank.
\<close>

theorem flatten_sorted:
  "sorted (map (sort_key_of ct) (flatten_news ct data names))
   \<and> (\<forall>i j. i < length (flatten_news ct data names) \<longrightarrow>
             j < length (flatten_news ct data names) \<longrightarrow>
             has_rank (flatten_news ct data names ! i) \<longrightarrow>
             rank_or 0 (rank (flatten_news ct data names ! i)) < 999 \<longrightarrow>
             \<not> has_rank (flatten_news ct data names ! j) \<longrightarrow> i < j)"
proof (intro conjI allI impI)
  show "sorted (map (sort_key_of ct) (flatten_news ct data names))"
    by (rule sorted_flatten_news)
next
  fix i j
  let ?out = "flatten_news ct data names"
  assume i: "i < length ?out" and j: "j < length ?out"
    and ri: "has_rank (?out ! i)" and b: "rank_or 0 (rank (?out ! i)) < 999"
    and rj: "\<not> has_rank (?out ! j)"
  have "fst (sort_key_of ct (?out ! i)) < fst (sort_key_of ct (?out ! j))"
    using b by (simp add: ranked_key [OF ri] unranked_key [OF rj])
  then have "sort_key_of ct (?out ! i) < sort_key_of ct (?out ! j)"
    by (simp add: less_prod_def')
  with sorted_flatten_news i j show "i < j"
    by (rule sorted_positions)
qed

theorem flatten_sorted_witness:
  "sorted (map (sort_key_of strip) (flatten_news strip ex_today (id_to_name ex_today)))
   \<and> 2 < length (flatten_news strip ex_today (id_to_name ex_today))
   \<and> 3 < length (flatten_news strip ex_today (id_to_name ex_today))
   \<and> has_rank (flatten_news strip ex_today (id_to_name ex_today) ! 2)
   \<and> rank_or 0 (rank (flatten_news strip ex_today (id_to_name ex_today) ! 2)) < 999
   \<and> \<not> has_rank (flatten_news strip ex_today (id_to_name ex_today) ! 3)
   \<and> (2::nat) < 3"
proof -
  have out: "flatten_news strip ex_today (id_to_name ex_today)
     = [w1\<lparr>source_name := ''Weibo''\<rparr>, z1\<lparr>source_name := ''zhihu''\<rparr>,
        w2\<lparr>source_name := ''Weibo''\<rparr>, w3\<lparr>source_name := ''Weibo''\<rparr>,
        z2\<lparr>source_name := ''zhihu''\<rparr>]"
    by code_simp
  have h: "2 < length (flatten_news strip ex_today (id_to_name ex_today))
   \<and> 3 < length (flatten_news strip ex_today (id_to_name ex_today))
   \<and> has_rank (flatten_news strip ex_today (id_to_name ex_today) ! 2)
   \<and> rank_or 0 (rank (flatten_news strip ex_today (id_to_name ex_today) ! 2)) < 999
   \<and> \<not> has_rank (flatten_news strip ex_today (id_to_name ex_today) ! 3)"
    unfolding out by (simp add: has_rank_def rank_or_def w2_def w3_def)
  from flatten_sorted [of strip ex_today "id_to_name ex_today"] h
  show ?thesis by blast
qed

text \<open>
  As C6 is stated it fails: 999 is not above every rank. In the example the item without
  a rank stands at position 3, before the item of rank 1000 at position 4.
\<close>

theorem unranked_before_ranked_counterexample:
  "flatten_news strip ex_today (id_to_name ex_today)
     = [w1\<lparr>source_name := ''Weibo''\<rparr>, z1\<lparr>source_name := ''zhihu''\<rparr>,
        w2\<lparr>source_name := ''Weibo''\<rparr>, w3\<lparr>source_name := ''Weibo''\<rparr>,
        z2\<lparr>source_name := ''zhihu''\<rparr>]
   \<and> rank (w3\<lparr>source_name := ''Weibo''\<rparr>) = None
   \<and> rank (z2\<lparr>source_name := ''zhihu''\<rparr>) = Some 1000
   \<and> \<not> has_rank (w3\<lparr>source_name := ''Weibo''\<rparr>)
   \<and> has_rank (z2\<lparr>source_name := ''zhihu''\<rparr>)"
  by code_simp

text \<open>
  C7 (amended). Every flattened item is an item of the snapshot whose \<open>source_name\<close> is
  the resolved name of the \<open>source_id\<close> key it is listed under; the resolved name is the
  first non-empty value among the override entry, the snapshot's own entry and the key
  itself, and the key when all three are empty; it is not empty when the key is not.
\<close>

theorem source_name_resolved:
  "(\<forall>x \<in> set (flatten_news ct data names).
      \<exists>e \<in> set (items data). \<exists>it \<in> set (snd e).
        x = it\<lparr>source_name := resolve_source_name names (id_to_name data) (fst e)\<rparr>)
   \<and> resolve_source_name names own sid =
       (case filter (\<lambda>s. s \<noteq> []) [or_empty (names sid), or_empty (own sid), sid] of
          [] \<Rightarrow> [] | s # _ \<Rightarrow> s)
   \<and> (sid \<noteq> [] \<longrightarrow> resolve_source_name names own sid \<noteq> [])"
proof (intro conjI)
  show "\<forall>x \<in> set (flatten_news ct data names).
      \<exists>e \<in> set (items data). \<exists>it \<in> set (snd e).
        x = it\<lparr>source_name := resolve_source_name names (id_to_name data) (fst e)\<rparr>"
    by (auto simp: set_flatten_news flatten_collect_eq named_items_def)
next
  show "resolve_source_name names own sid =
       (case filter (\<lambda>s. s \<noteq> []) [or_empty (names sid), or_empty (own sid), sid] of
          [] \<Rightarrow> [] | s # _ \<Rightarrow> s)"
    by (rule resolve_first_nonempty)
next
  show "sid \<noteq> [] \<longrightarrow> resolve_source_name names own sid \<noteq> []"
    by (simp add: resolve_nonempty)
qed

theorem source_name_resolved_witness:
  "w1\<lparr>source_name := ''Weibo''\<rparr> \<in> set (flatten_news strip ex_today (id_to_name ex_today))
   \<and> (\<exists>e \<in> set (items ex_today). \<exists>it \<in> set (snd e).
        w1\<lparr>source_name := ''Weibo''\<rparr>
        = it\<lparr>source_name :=
               resolve_source_name (id_to_name ex_today) (id_to_name ex_today) (fst e)\<rparr>)
   \<and> resolve_source_name (id_to_name ex_today) (id_to_name ex_today) ''weibo'' = ''Weibo''
   \<and> ''zhihu'' \<noteq> []
   \<and> resolve_source_name (id_to_name ex_today) (id_to_name ex_today) ''zhihu'' \<noteq> []
   \<and> resolve_source_name (id_to_name ex_today) (id_to_name ex_today) ''zhihu'' = ''zhihu''"
proof -
  note t = source_name_resolved [of strip ex_today "id_to_name ex_today" "id_to_name ex_today"
      "''zhihu''"]
  have mem: "w1\<lparr>source_name := ''Weibo''\<rparr>
             \<in> set (flatten_news strip ex_today (id_to_name ex_today))"
    by code_simp
  from t mem have ex: "\<exists>e \<in> set (items ex_today). \<exists>it \<in> set (snd e).
        w1\<lparr>source_name := ''Weibo''\<rparr>
        = it\<lparr>source_name :=
               resolve_source_name (id_to_name ex_today) (id_to_name ex_today) (fst e)\<rparr>"
    by blast
  have z: "''zhihu'' \<noteq> []" by simp
  from t z have nz: "resolve_source_name (id_to_name ex_today) (id_to_name ex_today) ''zhihu'' \<noteq> []"
    by blast
  have w: "resolve_source_name (id_to_name ex_today) (id_to_name ex_today) ''weibo'' = ''Weibo''"
    by (simp add: resolve_source_name_def truthy_def or_empty_def ex_today_def)
  have zz: "resolve_source_name (id_to_name ex_today) (id_to_name ex_today) ''zhihu'' = ''zhihu''"
    by (simp add: resolve_source_name_def truthy_def ex_today_def)
  show ?thesis using mem ex w z nz zz by blast
qed

text \<open>
  As C7 is stated it fails: an item listed under the empty \<open>source_id\<close>, with no entry in
  either mapping, gets the empty \<open>source_name\<close>.
\<close>

theorem source_name_empty_counterexample:
  "map source_name (flatten_news strip ex_anon (id_to_name ex_anon)) = [[]]"
  by code_simp

text \<open>
  C9. A body line is its head followed by the \<open>URL\<close> segment when \<open>url\<close> is not empty,
  the \<open>MOBILE\<close> segment when \<open>mobile_url\<close> is not empty and the \<open>RANK\<close> segment when
  \<open>rank\<close> is not 0, in this order and nothing else; with a \<open>url\<close>, a non-zero \<open>rank\<close>
  and an empty \<open>mobile_url\<close> the line ends with the \<open>URL\<close> segment followed by the
  \<open>RANK\<close> segment. The rendered text is the header lines and these body lines, each
  ended by a newline.
\<close>

theorem render_line_segments:
  "render_line it =
     str_int (idx it) @ ''. [platform='' @ platform_name it @ ''] [platform_id=''
       @ platform_id it @ ''] '' @ line_title it
     @ (if line_url it \<noteq> [] then '' [URL:'' @ line_url it @ '']'' else [])
     @ (if line_mobile_url it \<noteq> [] then '' [MOBILE:'' @ line_mobile_url it @ '']'' else [])
     @ (if line_rank it \<noteq> 0 then '' [RANK:'' @ str_int (line_rank it) @ '']'' else [])
   \<and> (line_url it \<noteq> [] \<longrightarrow> line_rank it \<noteq> 0 \<longrightarrow> line_mobile_url it = [] \<longrightarrow>
        render_line it =
          str_int (idx it) @ ''. [platform='' @ platform_name it @ ''] [platform_id=''
            @ platform_id it @ ''] '' @ line_title it
          @ '' [URL:'' @ line_url it @ ''] [RANK:'' @ str_int (line_rank it) @ '']'')
   \<and> render_ai_hotspots_text title_line note_line strftime lines date_str generated_at
         dedupe_against_date total_candidates
       = join [CHR 0x0A]
           (render_header title_line note_line strftime lines date_str generated_at
              dedupe_against_date total_candidates
            @ map render_line lines)
         @ [CHR 0x0A]"
  by (simp add: render_line_def Let_def render_ai_hotspots_text_def)

theorem render_line_segments_witness:
  "line_url ex_line \<noteq> [] \<and> line_rank ex_line \<noteq> 0 \<and> line_mobile_url ex_line = []
   \<and> render_line ex_line
       = ''1. [platform=Weibo] [platform_id=weibo] Alpha [URL:http://x.com/a] [RANK:3]''"
proof -
  have h: "line_url ex_line \<noteq> []" "line_rank ex_line \<noteq> 0" "line_mobile_url ex_line = []"
    by (simp_all add: ex_line_def)
  have v: "str_int (idx ex_line) @ ''. [platform='' @ platform_name ex_line @ ''] [platform_id=''
            @ platform_id ex_line @ ''] '' @ line_title ex_line
          @ '' [URL:'' @ line_url ex_line @ ''] [RANK:'' @ str_int (line_rank ex_line) @ '']''
        = ''1. [platform=Weibo] [platform_id=weibo] Alpha [URL:http://x.com/a] [RANK:3]''"
    by code_simp
  have r: "render_line ex_line =
          str_int (idx ex_line) @ ''. [platform='' @ platform_name ex_line @ ''] [platform_id=''
            @ platform_id ex_line @ ''] '' @ line_title ex_line
          @ '' [URL:'' @ line_url ex_line @ ''] [RANK:'' @ str_int (line_rank ex_line) @ '']''"
    using render_line_segments [of ex_line, THEN conjunct2, THEN conjunct1] h by blast
  show ?thesis by (intro conjI h trans [OF r v])
qed

text \<open>
  C8 (amended). \<open>build_r2_key\<close> fails exactly when the date has fewer than two dashes,
  and then both functions raise \<open>ValueError\<close>. With two dashes or more the date is
  \<open>year-month-rest\<close> and the outcome of \<open>write_ai_hotspots_file\<close> is that of its two file
  system calls: the error of creating the directories or of writing when one of them
  fails, the path written when both succeed. For a well-formed date \<open>YYYY-MM-DD\<close> the key
  is \<open>prefix/YYYY/MM/DD/filename\<close> (the trimmed prefix, left out when empty) and the path
  written is \<open>base/YYYY/MM/DD/filename\<close> (a base in normal form, a plain file name).
\<close>

theorem date_split_failure:
  "((\<exists>e. build_r2_key prefix date_str filename = Inl e) = (count_list date_str CHR ''-'' < 2))
   \<and> (count_list date_str CHR ''-'' < 2 \<longrightarrow>
        build_r2_key prefix date_str filename = Inl ValueError
        \<and> write_ai_hotspots_file mkdirs write_text fs base date_str filename content
            = Inl ValueError)
   \<and> (2 \<le> count_list date_str CHR ''-'' \<longrightarrow>
        (\<exists>y' m' d'.
           split_date date_str = Inr (y', m', d')
           \<and> date_str = y' @ ''-'' @ m' @ ''-'' @ d'
           \<and> CHR ''-'' \<notin> set y' \<and> CHR ''-'' \<notin> set m'
           \<and> write_ai_hotspots_file mkdirs write_text fs base date_str filename content
               = (case mkdirs fs (path_div (path_div (path_div (path_parse base) y') m') d') of
                    Inl e \<Rightarrow> Inl e
                  | Inr f1 \<Rightarrow>
                      (case write_text f1
                              (path_div (path_div (path_div (path_div (path_parse base) y') m') d')
                                 filename) content of
                         Inl e \<Rightarrow> Inl e
                       | Inr f2 \<Rightarrow>
                           Inr (path_str
                                  (path_div
                                     (path_div (path_div (path_div (path_parse base) y') m') d')
                                     filename), f2)))
           \<and> (\<forall>f1 f2.
                 mkdirs fs (path_div (path_div (path_div (path_parse base) y') m') d') = Inr f1 \<longrightarrow>
                 write_text f1
                   (path_div (path_div (path_div (path_div (path_parse base) y') m') d') filename)
                   content = Inr f2 \<longrightarrow>
                 write_ai_hotspots_file mkdirs write_text fs base date_str filename content
                 = Inr (path_str
                          (path_div (path_div (path_div (path_div (path_parse base) y') m') d')
                             filename), f2))))
   \<and> (iso_date y m d \<longrightarrow> filename \<noteq> [] \<longrightarrow>
        build_r2_key prefix (y @ ''-'' @ m @ ''-'' @ d) filename
          = Inr ((if strip_slash (strip prefix) = [] then []
                  else strip_slash (strip prefix) @ ''/'')
                 @ y @ ''/'' @ m @ ''/'' @ d @ ''/'' @ filename))
   \<and> (iso_date y m d \<longrightarrow> normal_base base \<longrightarrow> plain_name filename \<longrightarrow>
        mkdirs fs (path_div (path_div (path_div (path_parse base) y) m) d) = Inr fs1 \<longrightarrow>
        write_text fs1
          (path_div (path_div (path_div (path_div (path_parse base) y) m) d) filename)
          content = Inr fs2 \<longrightarrow>
        write_ai_hotspots_file mkdirs write_text fs base (y @ ''-'' @ m @ ''-'' @ d)
          filename content
          = Inr (base @ ''/'' @ y @ ''/'' @ m @ ''/'' @ d @ ''/'' @ filename, fs2))"
proof (intro conjI impI)
  show "(\<exists>e. build_r2_key prefix date_str filename = Inl e)
        = (count_list date_str CHR ''-'' < 2)"
    by (rule build_r2_key_fails)
next
  assume "count_list date_str CHR ''-'' < 2"
  then have e: "split_date date_str = Inl ValueError" by (simp add: split_date_error)
  show "build_r2_key prefix date_str filename = Inl ValueError"
    by (simp add: build_r2_key_def e)
  show "write_ai_hotspots_file mkdirs write_text fs base date_str filename content
          = Inl ValueError"
    by (simp add: write_ai_hotspots_file_def e)
next
  assume c: "2 \<le> count_list date_str CHR ''-''"
  from split_max_two [OF c] obtain y' m' d' where
    s: "date_str = y' @ CHR ''-'' # m' @ CHR ''-'' # d'" and y: "CHR ''-'' \<notin> set y'"
    and m: "CHR ''-'' \<notin> set m'" and sp: "split_max CHR ''-'' 2 date_str = [y', m', d']"
    by blast
  have sd: "split_date date_str = Inr (y', m', d')"
    by (simp add: split_date_def sp unpack3_def)
  from s have s': "date_str = y' @ ''-'' @ m' @ ''-'' @ d'" by simp
  let ?dir = "path_div (path_div (path_div (path_parse base) y') m') d'"
  have w: "write_ai_hotspots_file mkdirs write_text fs base date_str filename content
           = (case mkdirs fs ?dir of
                Inl e \<Rightarrow> Inl e
              | Inr f1 \<Rightarrow>
                  (case write_text f1 (path_div ?dir filename) content of
                     Inl e \<Rightarrow> Inl e
                   | Inr f2 \<Rightarrow> Inr (path_str (path_div ?dir filename), f2)))"
    by (simp add: write_ai_hotspots_file_def sd Let_def split: sum.splits)
  have ok: "\<forall>f1 f2. mkdirs fs ?dir = Inr f1 \<longrightarrow>
              write_text f1 (path_div ?dir filename) content = Inr f2 \<longrightarrow>
              write_ai_hotspots_file mkdirs write_text fs base date_str filename content
              = Inr (path_str (path_div ?dir filename), f2)"
    by (simp add: w split: sum.splits)
  show "\<exists>y' m' d'.
           split_date date_str = Inr (y', m', d')
           \<and> date_str = y' @ ''-'' @ m' @ ''-'' @ d'
           \<and> CHR ''-'' \<notin> set y' \<and> CHR ''-'' \<notin> set m'
           \<and> write_ai_hotspots_file mkdirs write_text fs base date_str filename content
               = (case mkdirs fs (path_div (path_div (path_div (path_parse base) y') m') d') of
                    Inl e \<Rightarrow> Inl e
                  | Inr f1 \<Rightarrow>
                      (case write_text f1
                              (path_div (path_div (path_div (path_div (path_parse base) y') m') d')
                                 filename) content of
                         Inl e \<Rightarrow> Inl e
                       | Inr f2 \<Rightarrow>
                           Inr (path_str
                                  (path_div
                                     (path_div (path_div (path_div (path_parse base) y') m') d')
                                     filename), f2)))
           \<and> (\<forall>f1 f2.
                 mkdirs fs (path_div (path_div (path_div (path_parse base) y') m') d') = Inr f1 \<longrightarrow>
                 write_text f1
                   (path_div (path_div (path_div (path_div (path_parse base) y') m') d') filename)
                   content = Inr f2 \<longrightarrow>
                 write_ai_hotspots_file mkdirs write_text fs base date_str filename content
                 = Inr (path_str
                          (path_div (path_div (path_div (path_div (path_parse base) y') m') d')
                             filename), f2))"
    using sd s' y m w ok by blast
next
  assume iso: "iso_date y m d" and f: "filename \<noteq> []"
  from iso_date_parts [OF iso] have ny: "CHR ''-'' \<notin> set y" and nm: "CHR ''-'' \<notin> set m"
    and ne: "y \<noteq> []" "m \<noteq> []" "d \<noteq> []"
    by (simp_all add: plain_name_def)
  show "build_r2_key prefix (y @ ''-'' @ m @ ''-'' @ d) filename
          = Inr ((if strip_slash (strip prefix) = [] then []
                  else strip_slash (strip prefix) @ ''/'')
                 @ y @ ''/'' @ m @ ''/'' @ d @ ''/'' @ filename)"
    using ne f by (simp add: build_r2_key_def Let_def split_date_parts [OF ny nm, simplified])
next
  assume iso: "iso_date y m d" and b: "normal_base base" and f: "plain_name filename"
    and mk: "mkdirs fs (path_div (path_div (path_div (path_parse base) y) m) d) = Inr fs1"
    and wt: "write_text fs1
          (path_div (path_div (path_div (path_div (path_parse base) y) m) d) filename)
          content = Inr fs2"
  from iso_date_parts [OF iso] have ny: "CHR ''-'' \<notin> set y" and nm: "CHR ''-'' \<notin> set m"
    and p: "plain_name y" "plain_name m" "plain_name d"
    by simp_all
  show "write_ai_hotspots_file mkdirs write_text fs base (y @ ''-'' @ m @ ''-'' @ d)
          filename content
          = Inr (base @ ''/'' @ y @ ''/'' @ m @ ''/'' @ d @ ''/'' @ filename, fs2)"
    using local_path [OF b p f]
    by (simp add: write_ai_hotspots_file_def split_date_parts [OF ny nm, simplified] mk wt)
qed

theorem date_split_failure_witness:
  "count_list ''20240115'' CHR ''-'' < 2
   \<and> build_r2_key '' /ai/ '' ''20240115'' ''hot.txt'' = Inl ValueError
   \<and> write_ai_hotspots_file guarded_mkdirs guarded_write_text [] ''output/ai'' ''20240115''
        ''hot.txt'' ''text'' = Inl ValueError
   \<and> 2 \<le> count_list ''2024-01-15-x'' CHR ''-''
   \<and> guarded_mkdirs [] (path_parse ''out/2024/01/15-x'')
       = Inr [path_parse ''out/2024/01/15-x'']
   \<and> guarded_write_text [path_parse ''out/2024/01/15-x'']
         (path_parse ''out/2024/01/15-x/hot.txt'') ''text''
       = Inr [path_parse ''out/2024/01/15-x/hot.txt'', path_parse ''out/2024/01/15-x'']
   \<and> write_ai_hotspots_file guarded_mkdirs guarded_write_text [] ''out'' ''2024-01-15-x''
        ''hot.txt'' ''text''
       = Inr (''out/2024/01/15-x/hot.txt'',
              [path_parse ''out/2024/01/15-x/hot.txt'', path_parse ''out/2024/01/15-x''])
   \<and> guarded_mkdirs [] (path_parse ''/srv/2024/01/15-x'') = Inl OSError
   \<and> write_ai_hotspots_file guarded_mkdirs guarded_write_text [] ''/srv'' ''2024-01-15-x''
        ''hot.txt'' ''text'' = Inl OSError
   \<and> iso_date ''2024'' ''01'' ''15'' \<and> ''hot.txt'' \<noteq> []
   \<and> build_r2_key '' /ai/ '' ''2024-01-15'' ''hot.txt'' = Inr ''ai/2024/01/15/hot.txt''
   \<and> normal_base ''output/ai'' \<and> plain_name ''hot.txt''
   \<and> write_ai_hotspots_file guarded_mkdirs guarded_write_text [] ''output/ai'' ''2024-01-15''
        ''hot.txt'' ''text''
       = Inr (''output/ai/2024/01/15/hot.txt'',
              [path_parse ''output/ai/2024/01/15/hot.txt'', path_parse ''output/ai/2024/01/15''])"
proof -
  let ?dir = "path_div (path_div (path_div (path_parse ''output/ai'') ''2024'') ''01'') ''15''"
  have c0: "count_list ''20240115'' CHR ''-'' < 2" by simp
  have c2: "2 \<le> count_list ''2024-01-15-x'' CHR ''-''" by simp
  have iso: "iso_date ''2024'' ''01'' ''15''" by (simp add: iso_date_def digits_def)
  have f: "''hot.txt'' \<noteq> []" by simp
  have nb: "normal_base ''output/ai''" by code_simp
  have pn: "plain_name ''hot.txt''" by (simp add: plain_name_def)
  have p: "strip_slash (strip '' /ai/ '') = ''ai''" by code_simp
  have g1: "guarded_mkdirs [] (path_parse ''out/2024/01/15-x'')
       = Inr [path_parse ''out/2024/01/15-x'']"
    by code_simp
  have g2: "guarded_write_text [path_parse ''out/2024/01/15-x'']
         (path_parse ''out/2024/01/15-x/hot.txt'') ''text''
       = Inr [path_parse ''out/2024/01/15-x/hot.txt'', path_parse ''out/2024/01/15-x'']"
    by code_simp
  have g3: "guarded_mkdirs [] (path_parse ''/srv/2024/01/15-x'') = Inl OSError"
    by code_simp
  have sdx: "split_date ''2024-01-15-x'' = Inr (''2024'', ''01'', ''15-x'')"
    by code_simp
  have d1: "path_div (path_div (path_div (path_parse ''out'') ''2024'') ''01'') ''15-x''
            = path_parse ''out/2024/01/15-x''"
    by code_simp
  have d2: "path_div (path_parse ''out/2024/01/15-x'') ''hot.txt''
            = path_parse ''out/2024/01/15-x/hot.txt''"
    by code_simp
  have d3: "path_str (path_parse ''out/2024/01/15-x/hot.txt'') = ''out/2024/01/15-x/hot.txt''"
    by code_simp
  have d4: "path_div (path_div (path_div (path_parse ''/srv'') ''2024'') ''01'') ''15-x''
            = path_parse ''/srv/2024/01/15-x''"
    by code_simp
  have m1: "guarded_mkdirs [] ?dir = Inr [?dir]" by code_simp
  have w1: "guarded_write_text [?dir] (path_div ?dir ''hot.txt'') ''text''
            = Inr [path_div ?dir ''hot.txt'', ?dir]"
    by code_simp
  have d5: "[path_div ?dir ''hot.txt'', ?dir]
            = [path_parse ''output/ai/2024/01/15/hot.txt'', path_parse ''output/ai/2024/01/15'']"
    by code_simp
  note a = date_split_failure [where prefix = "'' /ai/ ''" and date_str = "''20240115''"
      and filename = "''hot.txt''" and mkdirs = guarded_mkdirs
      and write_text = guarded_write_text
      and fs = "[]" and base = "''output/ai''" and content = "''text''"
      and y = "''2024''" and m = "''01''" and d = "''15''"
      and ?fs1.0 = "[?dir]" and ?fs2.0 = "[path_div ?dir ''hot.txt'', ?dir]"]
  note b = date_split_failure [where prefix = "'' /ai/ ''" and date_str = "''2024-01-15''"
      and filename = "''hot.txt''" and mkdirs = guarded_mkdirs
      and write_text = guarded_write_text
      and fs = "[]" and base = "''output/ai''" and content = "''text''"
      and y = "''2024''" and m = "''01''" and d = "''15''"
      and ?fs1.0 = "[?dir]" and ?fs2.0 = "[path_div ?dir ''hot.txt'', ?dir]"]
  note x = date_split_failure [where prefix = "'' /ai/ ''" and date_str = "''2024-01-15-x''"
      and filename = "''hot.txt''" and mkdirs = guarded_mkdirs
      and write_text = guarded_write_text
      and fs = "[]" and base = "''out''" and content = "''text''"
      and y = "''2024''" and m = "''01''" and d = "''15''"
      and ?fs1.0 = "[?dir]" and ?fs2.0 = "[path_div ?dir ''hot.txt'', ?dir]"]
  note z = date_split_failure [where prefix = "'' /ai/ ''" and date_str = "''2024-01-15-x''"
      and filename = "''hot.txt''" and mkdirs = guarded_mkdirs
      and write_text = guarded_write_text
      and fs = "[]" and base = "''/srv''" and content = "''text''"
      and y = "''2024''" and m = "''01''" and d = "''15''"
      and ?fs1.0 = "[?dir]" and ?fs2.0 = "[path_div ?dir ''hot.txt'', ?dir]"]
  have r1: "build_r2_key '' /ai/ '' ''20240115'' ''hot.txt'' = Inl ValueError
     \<and> write_ai_hotspots_file guarded_mkdirs guarded_write_text [] ''output/ai'' ''20240115''
          ''hot.txt'' ''text'' = Inl ValueError"
    using a c0 by blast
  have r2: "write_ai_hotspots_file guarded_mkdirs guarded_write_text [] ''out'' ''2024-01-15-x''
        ''hot.txt'' ''text''
       = Inr (''out/2024/01/15-x/hot.txt'',
              [path_parse ''out/2024/01/15-x/hot.txt'', path_parse ''out/2024/01/15-x''])"
  proof -
    from x c2 obtain y' m' d' where
      sd: "split_date ''2024-01-15-x'' = Inr (y', m', d')"
      and ok: "\<forall>f1 f2.
                 guarded_mkdirs [] (path_div (path_div (path_div (path_parse ''out'') y') m') d')
                   = Inr f1 \<longrightarrow>
                 guarded_write_text f1
                   (path_div (path_div (path_div (path_div (path_parse ''out'') y') m') d')
                      ''hot.txt'') ''text'' = Inr f2 \<longrightarrow>
                 write_ai_hotspots_file guarded_mkdirs guarded_write_text [] ''out''
                   ''2024-01-15-x'' ''hot.txt'' ''text''
                 = Inr (path_str
                          (path_div (path_div (path_div (path_div (path_parse ''out'') y') m') d')
                             ''hot.txt''), f2)"
      by blast
    from sd sdx have ymd: "y' = ''2024''" "m' = ''01''" "d' = ''15-x''" by simp_all
    from ok [unfolded ymd d1 d2 d3] g1 g2 show ?thesis by blast
  qed
  have r3: "write_ai_hotspots_file guarded_mkdirs guarded_write_text [] ''/srv'' ''2024-01-15-x''
        ''hot.txt'' ''text'' = Inl OSError"
  proof -
    from z c2 obtain y' m' d' where
      sd: "split_date ''2024-01-15-x'' = Inr (y', m', d')"
      and w: "write_ai_hotspots_file guarded_mkdirs guarded_write_text [] ''/srv''
                ''2024-01-15-x'' ''hot.txt'' ''text''
              = (case guarded_mkdirs []
                        (path_div (path_div (path_div (path_parse ''/srv'') y') m') d') of
                   Inl e \<Rightarrow> Inl e
                 | Inr f1 \<Rightarrow>
                     (case guarded_write_text f1
                             (path_div
                                (path_div (path_div (path_div (path_parse ''/srv'') y') m') d')
                                ''hot.txt'') ''text'' of
                        Inl e \<Rightarrow> Inl e
                      | Inr f2 \<Rightarrow>
                          Inr (path_str
                                 (path_div
                                    (path_div (path_div (path_div (path_parse ''/srv'') y') m')
                                       d')
                                    ''hot.txt''), f2)))"
      by blast
    from sd sdx have ymd: "y' = ''2024''" "m' = ''01''" "d' = ''15-x''" by simp_all
    from w [unfolded ymd d4 g3] show ?thesis by simp
  qed
  have r4: "build_r2_key '' /ai/ '' ''2024-01-15'' ''hot.txt'' = Inr ''ai/2024/01/15/hot.txt''"
    using b iso f p by simp
  have r5: "write_ai_hotspots_file guarded_mkdirs guarded_write_text [] ''output/ai''
                ''2024-01-15'' ''hot.txt'' ''text''
            = Inr (''output/ai/2024/01/15/hot.txt'', [path_div ?dir ''hot.txt'', ?dir])"
    using b iso nb pn m1 w1 by simp
  have r6: "write_ai_hotspots_file guarded_mkdirs guarded_write_text [] ''output/ai''
                ''2024-01-15'' ''hot.txt'' ''text''
       = Inr (''output/ai/2024/01/15/hot.txt'',
              [path_parse ''output/ai/2024/01/15/hot.txt'', path_parse ''output/ai/2024/01/15''])"
    using r5 unfolding d5 .
  from r1 have r1a: "build_r2_key '' /ai/ '' ''20240115'' ''hot.txt'' = Inl ValueError"
    and r1b: "write_ai_hotspots_file guarded_mkdirs guarded_write_text [] ''output/ai''
          ''20240115'' ''hot.txt'' ''text'' = Inl ValueError"
    by blast+
  show ?thesis
    by (intro conjI c0 r1a r1b c2 g1 g2 r2 g3 r3 iso f r4 nb pn r6)
qed

text \<open>
  As C8 is stated it fails: \<open>split("-", 2)\<close> splits at most twice, so a date of four
  dash-separated components is accepted, the text after the second dash being the day.
\<close>

theorem date_four_parts_counterexample:
  "split_all CHR ''-'' ''2024-01-15-x'' = [''2024'', ''01'', ''15'', ''x'']
   \<and> build_r2_key ''ai'' ''2024-01-15-x'' ''hot.txt'' = Inr ''ai/2024/01/15-x/hot.txt''
   \<and> write_ai_hotspots_file ex_mkdirs ex_write_text [] ''out'' ''2024-01-15-x'' ''hot.txt''
        ''text''
      = Inr (''out/2024/01/15-x/hot.txt'',
             [path_parse ''out/2024/01/15-x/hot.txt'', path_parse ''out/2024/01/15-x''])"
  by code_simp

text \<open>
  C10 (amended). For a date with two dashes or more, \<open>year-month-rest\<close>, the key is the
  non-empty ones among the trimmed prefix, year, month, rest and filename, joined by
  slashes; it has no empty segment and no leading or trailing slash when none of these
  components has one. The date \<open>2024--15\<close> with an empty prefix gives the key
  \<open>2024/15/filename\<close>.
\<close>

theorem r2_key_segments:
  "(2 \<le> count_list date_str CHR ''-'' \<longrightarrow>
      (\<exists>y m d. date_str = y @ ''-'' @ m @ ''-'' @ d \<and> CHR ''-'' \<notin> set y \<and> CHR ''-'' \<notin> set m
         \<and> build_r2_key prefix date_str filename
             = Inr (join ''/''
                 (filter (\<lambda>p. p \<noteq> []) [strip_slash (strip prefix), y, m, d, filename]))
         \<and> ((\<forall>p \<in> set [strip_slash (strip prefix), y, m, d, filename]. no_empty_segment p)
              \<longrightarrow> (\<exists>k. build_r2_key prefix date_str filename = Inr k \<and> no_empty_segment k))))
   \<and> (filename \<noteq> [] \<longrightarrow> build_r2_key [] ''2024--15'' filename = Inr (''2024/15/'' @ filename))"
proof (intro conjI impI)
  assume c: "2 \<le> count_list date_str CHR ''-''"
  from split_max_two [OF c] obtain y m d where
    s: "date_str = y @ CHR ''-'' # m @ CHR ''-'' # d" and y: "CHR ''-'' \<notin> set y"
    and m: "CHR ''-'' \<notin> set m" and sp: "split_max CHR ''-'' 2 date_str = [y, m, d]"
    by blast
  let ?ps = "filter (\<lambda>p. p \<noteq> []) [strip_slash (strip prefix), y, m, d, filename]"
  have k: "build_r2_key prefix date_str filename = Inr (join ''/'' ?ps)"
    by (simp add: build_r2_key_def Let_def split_date_def sp unpack3_def)
  have seg: "(\<forall>p \<in> set [strip_slash (strip prefix), y, m, d, filename]. no_empty_segment p)
              \<longrightarrow> (\<exists>k. build_r2_key prefix date_str filename = Inr k \<and> no_empty_segment k)"
  proof
    assume a: "\<forall>p \<in> set [strip_slash (strip prefix), y, m, d, filename]. no_empty_segment p"
    have "\<forall>p \<in> set ?ps. p \<noteq> [] \<and> no_empty_segment p"
    proof
      fix p assume "p \<in> set ?ps"
      then have "p \<in> {x \<in> set [strip_slash (strip prefix), y, m, d, filename]. x \<noteq> []}"
        by (simp only: set_filter)
      then have "p \<noteq> []" and "p \<in> set [strip_slash (strip prefix), y, m, d, filename]"
        by blast+
      with a show "p \<noteq> [] \<and> no_empty_segment p" by blast
    qed
    then have "no_empty_segment (join ''/'' ?ps)" by (rule join_segments)
    with k show "\<exists>k. build_r2_key prefix date_str filename = Inr k \<and> no_empty_segment k"
      by blast
  qed
  from s have s': "date_str = y @ ''-'' @ m @ ''-'' @ d" by simp
  show "\<exists>y m d. date_str = y @ ''-'' @ m @ ''-'' @ d \<and> CHR ''-'' \<notin> set y \<and> CHR ''-'' \<notin> set m
         \<and> build_r2_key prefix date_str filename
             = Inr (join ''/''
                 (filter (\<lambda>p. p \<noteq> []) [strip_slash (strip prefix), y, m, d, filename]))
         \<and> ((\<forall>p \<in> set [strip_slash (strip prefix), y, m, d, filename]. no_empty_segment p)
              \<longrightarrow> (\<exists>k. build_r2_key prefix date_str filename = Inr k \<and> no_empty_segment k))"
    using s' y m k seg by blast
next
  assume f: "filename \<noteq> []"
  have sd: "split_date ''2024--15'' = Inr (''2024'', [], ''15'')"
    using split_date_parts [of "''2024''" "[]" "''15''"] by simp
  have p: "strip_slash (strip []) = []"
    by (simp add: strip_def strip_slash_def strip_where_def)
  show "build_r2_key [] ''2024--15'' filename = Inr (''2024/15/'' @ filename)"
    using f by (simp add: build_r2_key_def Let_def sd p)
qed

theorem r2_key_segments_witness:
  "2 \<le> count_list ''2024--15'' CHR ''-''
   \<and> list_all no_empty_segment [strip_slash (strip '' /ai/hot/ ''), ''2024'', [], ''15'', ''f.txt'']
   \<and> build_r2_key '' /ai/hot/ '' ''2024--15'' ''f.txt'' = Inr ''ai/hot/2024/15/f.txt''
   \<and> no_empty_segment ''ai/hot/2024/15/f.txt''
   \<and> ''f.txt'' \<noteq> []
   \<and> build_r2_key [] ''2024--15'' ''f.txt'' = Inr ''2024/15/f.txt''"
proof -
  have c: "2 \<le> count_list ''2024--15'' CHR ''-''" by simp
  have l: "list_all no_empty_segment
             [strip_slash (strip '' /ai/hot/ ''), ''2024'', [], ''15'', ''f.txt'']"
    by code_simp
  have k: "build_r2_key '' /ai/hot/ '' ''2024--15'' ''f.txt'' = Inr ''ai/hot/2024/15/f.txt''"
    by code_simp
  have f: "''f.txt'' \<noteq> []" by simp
  note t = r2_key_segments [of "''2024--15''" "'' /ai/hot/ ''" "''f.txt''"]
  from t c obtain y m d where
    d: "''2024--15'' = y @ ''-'' @ m @ ''-'' @ d" and y: "CHR ''-'' \<notin> set y"
    and m: "CHR ''-'' \<notin> set m"
    and seg: "(\<forall>p \<in> set [strip_slash (strip '' /ai/hot/ ''), y, m, d, ''f.txt'']. no_empty_segment p)
              \<longrightarrow> (\<exists>k. build_r2_key '' /ai/hot/ '' ''2024--15'' ''f.txt'' = Inr k
                        \<and> no_empty_segment k)"
    by blast
  have "split_date ''2024--15'' = Inr (y, m, d)"
    unfolding d by (rule split_date_parts [OF y m])
  moreover have "split_date ''2024--15'' = Inr (''2024'', [], ''15'')"
    using split_date_parts [of "''2024''" "[]" "''15''"] by simp
  ultimately have ymd: "y = ''2024''" "m = []" "d = ''15''" by simp_all
  from l have "\<forall>p \<in> set [strip_slash (strip '' /ai/hot/ ''), y, m, d, ''f.txt'']. no_empty_segment p"
    unfolding ymd by (simp only: list_all_iff)
  with seg obtain k' where "build_r2_key '' /ai/hot/ '' ''2024--15'' ''f.txt'' = Inr k'"
    and n: "no_empty_segment k'"
    by blast
  with k have n': "no_empty_segment ''ai/hot/2024/15/f.txt''" by simp
  from t f have e: "build_r2_key [] ''2024--15'' ''f.txt'' = Inr ''2024/15/f.txt''" by simp
  show ?thesis using c l k n' f e by blast
qed

text \<open>
  As C10 is stated it fails: a slash inside a component is kept, so a prefix with a doubled
  slash or a file name with a leading slash gives a key with an empty segment.
\<close>

theorem r2_key_segments_counterexample:
  "2 \<le> count_list ''2024-01-15'' CHR ''-''
   \<and> build_r2_key ''a//b'' ''2024-01-15'' ''f.txt'' = Inr ''a//b/2024/01/15/f.txt''
   \<and> \<not> no_empty_segment ''a//b/2024/01/15/f.txt''
   \<and> build_r2_key [] ''2024-01-15'' ''/f.txt'' = Inr ''2024/01/15//f.txt''
   \<and> \<not> no_empty_segment ''2024/01/15//f.txt''"
  by code_simp

end
